theory Spec2Isabelle
  imports Complex_Main "HOL-Library.AList"
begin

section \<open>Deterministic pseudo-random stream (seededRandom.js)\<close>

text \<open>
  \<^verbatim>\<open>seededRandom(seed)\<close> returns a closure over one mutable number \<open>x\<close>, initialised to
  \<^verbatim>\<open>Math.sin(seed) * 10000\<close>. Every call replaces \<open>x\<close> by \<^verbatim>\<open>Math.sin(x) * 10000\<close> and
  returns \<^verbatim>\<open>x - Math.floor(x)\<close>. The closure is modelled by its state: \<open>seededRandom\<close>
  gives the initial state and \<open>rand_call\<close> maps a state to the value drawn and the next
  state. JavaScript numbers are idealised as reals; at the argument \<open>0\<close> the idealisation
  is exact, since \<^verbatim>\<open>Math.sin(+0)\<close> is \<open>+0\<close>.
\<close>

definition seededRandom :: "real \<Rightarrow> real" where
  "seededRandom seed = sin seed * 10000"

definition rand_call :: "real \<Rightarrow> real \<times> real" where
  "rand_call x = (let x' = sin x * 10000 in (x' - of_int \<lfloor>x'\<rfloor>, x'))"

text \<open>The value of the \<open>n\<close>-th call (counted from \<open>0\<close>) on a closure in state \<open>x\<close>.\<close>

fun rand_draw :: "real \<Rightarrow> nat \<Rightarrow> real" where
  "rand_draw x 0 = fst (rand_call x)"
| "rand_draw x (Suc n) = rand_draw (snd (rand_call x)) n"

text \<open>The state of the closure after \<open>n\<close> calls.\<close>

fun rand_state :: "real \<Rightarrow> nat \<Rightarrow> real" where
  "rand_state x 0 = x"
| "rand_state x (Suc n) = rand_state (snd (rand_call x)) n"

section \<open>Terrain generator state (unifiedTerrain.js)\<close>

text \<open>
  JavaScript numbers are idealised as reals (heights, coordinates, times) and as integers
  (chunk indices, seeds). Where the source would go on with \<^verbatim>\<open>NaN\<close> or an infinity (a
  quotient by zero, a read past the end of an array feeding arithmetic) the model stops
  with \<open>NonFinite\<close>; where the source throws on a property read of \<^verbatim>\<open>null\<close> or
  \<^verbatim>\<open>undefined\<close> the model stops with \<open>TypeError\<close>.

  A chunk key is the string \<^verbatim>\<open>`${chunkX},${chunkZ}`\<close>, an injective rendering of the pair
  of integers, and is modelled by the pair. The \<^verbatim>\<open>Map\<close> \<open>terrainChunks\<close> and the two
  objects \<open>_regenOldHeights\<close>, \<open>_regenNewHeights\<close> are association lists in insertion
  order. A mesh is represented by the flat \<open>x, y, z\<close> array of its position attribute;
  colours, indices, materials and the scene graph belong to the renderer and are left
  out, as are the write-only fields \<^verbatim>\<open>this.rand\<close> and \<^verbatim>\<open>window.globalTerrainSeed\<close>.
  The seed is \<open>None\<close> when it is missing (\<^verbatim>\<open>undefined\<close>, \<^verbatim>\<open>null\<close>).

  The two height functions of the source, \<^verbatim>\<open>generateTerrainHeight(x, z)\<close> (which reads
  \<^verbatim>\<open>this.terrainSeed\<close>) and \<^verbatim>\<open>generateTerrainHeightWithSeed(x, z, seed)\<close>, are floating
  point compositions of sines, cosines and hashes. They read nothing but the seed and
  their arguments, and every random stream they draw from is created inside the call, so
  the cache operations below take them as function parameters.
\<close>

datatype js_error = TypeError | NonFinite

type_synonym chunk_key = "int \<times> int"

type_synonym height_fn = "int option \<Rightarrow> real \<Rightarrow> real \<Rightarrow> real"

type_synonym seeded_height_fn = "real \<Rightarrow> real \<Rightarrow> int option \<Rightarrow> real"

record terrain_mesh =
  positions :: "real list"

record chunk =
  mesh :: "terrain_mesh option"
  chunkX :: int
  chunkZ :: int
  originalHeights :: "real list"

record UnifiedTerrain =
  chunkSize :: real
  chunkResolution :: nat
  renderDistance :: real
  terrainChunks :: "(chunk_key \<times> chunk) list"
  terrainSeed :: "int option"
  wavePhase :: real
  waveSpeed :: real
  waveAmp :: real
  waveFreq :: real
  regenLerpActive :: bool
  regenLerpTime :: real
  regenLerpDuration :: real
  regenOldHeights :: "(chunk_key \<times> real list) list"
  regenNewHeights :: "(chunk_key \<times> real list) list"
  regenSeed :: "int option"

text \<open>Sequencing of steps that may throw: a loop stops at the first error.\<close>

fun fold_err :: "('a \<Rightarrow> 's \<Rightarrow> 'e + 's) \<Rightarrow> 'a list \<Rightarrow> 's \<Rightarrow> 'e + 's" where
  "fold_err f [] s = Inr s"
| "fold_err f (x # xs) s = (case f x s of Inl e \<Rightarrow> Inl e | Inr s' \<Rightarrow> fold_err f xs s')"

fun map_err :: "('a \<Rightarrow> 'e + 'b) \<Rightarrow> 'a list \<Rightarrow> 'e + 'b list" where
  "map_err f [] = Inr []"
| "map_err f (x # xs) =
     (case f x of Inl e \<Rightarrow> Inl e
      | Inr y \<Rightarrow> (case map_err f xs of Inl e \<Rightarrow> Inl e | Inr ys \<Rightarrow> Inr (y # ys)))"

text \<open>\<^verbatim>\<open>!this.terrainSeed\<close>: the seed is missing or zero.\<close>

definition no_seed :: "int option \<Rightarrow> bool" where
  "no_seed s = (s = None \<or> s = Some 0)"

subsection \<open>createTerrainChunk\<close>

text \<open>
  \<^verbatim>\<open>worldOffset + (i / this.chunkResolution) * this.chunkSize - this.chunkSize / 2\<close> with
  \<^verbatim>\<open>worldOffset = c * this.chunkSize\<close>, for the chunk index \<open>c\<close> and the vertex index \<open>i\<close>
  along one axis.
\<close>

definition vertex_coord :: "UnifiedTerrain \<Rightarrow> int \<Rightarrow> nat \<Rightarrow> real" where
  "vertex_coord t c i =
     of_int c * chunkSize t + (real i / real (chunkResolution t)) * chunkSize t - chunkSize t / 2"

text \<open>The flat array \<open>vertices\<close>: rows \<open>z = 0..resolution\<close>, columns \<open>x = 0..resolution\<close>.\<close>

definition chunk_vertices :: "height_fn \<Rightarrow> UnifiedTerrain \<Rightarrow> int \<Rightarrow> int \<Rightarrow> real list" where
  "chunk_vertices generateTerrainHeight t cX cZ =
     concat (map (\<lambda>z. concat (map (\<lambda>x.
        (let px = vertex_coord t cX x;
             pz = vertex_coord t cZ z;
             height = generateTerrainHeight (terrainSeed t) px pz
         in [px, height, pz]))
       [0..<Suc (chunkResolution t)]))
     [0..<Suc (chunkResolution t)])"

text \<open>\<^verbatim>\<open>vertices.filter((_, index) => index % 3 === 1)\<close>\<close>

definition height_entries :: "real list \<Rightarrow> real list" where
  "height_entries vertices = map snd (filter (\<lambda>(index, v). index mod 3 = 1) (enumerate 0 vertices))"

definition createTerrainChunk :: "height_fn \<Rightarrow> UnifiedTerrain \<Rightarrow> int \<Rightarrow> int \<Rightarrow> js_error + chunk" where
  "createTerrainChunk generateTerrainHeight t cX cZ =
     (if no_seed (terrainSeed t)
      then Inr \<lparr>mesh = None, chunkX = cX, chunkZ = cZ, originalHeights = []\<rparr>
      else if chunkResolution t = 0 then Inl NonFinite
      else (let vertices = chunk_vertices generateTerrainHeight t cX cZ
            in Inr \<lparr>mesh = Some \<lparr>positions = vertices\<rparr>, chunkX = cX, chunkZ = cZ,
                    originalHeights = height_entries vertices\<rparr>))"

subsection \<open>updateTerrainChunks\<close>

text \<open>
  The offsets \<open>(dx, dz)\<close> of the double loop that pass the distance test, in loop order.
\<close>

definition required_offsets :: "UnifiedTerrain \<Rightarrow> (int \<times> int) list" where
  "required_offsets t =
     (let chunkRadius = \<lceil>renderDistance t / chunkSize t\<rceil>
      in [(dx, dz). dx \<leftarrow> [- chunkRadius..chunkRadius], dz \<leftarrow> [- chunkRadius..chunkRadius],
            sqrt (of_int (dx * dx + dz * dz)) * chunkSize t \<le> renderDistance t])"

definition requiredChunks :: "UnifiedTerrain \<Rightarrow> real \<times> real \<Rightarrow> chunk_key list" where
  "requiredChunks t playerPosition =
     (let playerChunkX = \<lfloor>fst playerPosition / chunkSize t\<rfloor>;
          playerChunkZ = \<lfloor>snd playerPosition / chunkSize t\<rfloor>
      in map (\<lambda>(dx, dz). (playerChunkX + dx, playerChunkZ + dz)) (required_offsets t))"

fun create_missing ::
  "height_fn \<Rightarrow> UnifiedTerrain \<Rightarrow> chunk_key list \<Rightarrow> (chunk_key \<times> chunk) list
     \<Rightarrow> js_error + (chunk_key \<times> chunk) list" where
  "create_missing H t [] chunks = Inr chunks"
| "create_missing H t (k # ks) chunks =
     (if k \<in> set (map fst chunks) then create_missing H t ks chunks
      else (case createTerrainChunk H t (fst k) (snd k) of
              Inl e \<Rightarrow> Inl e
            | Inr c \<Rightarrow> create_missing H t ks (AList.update k c chunks)))"

text \<open>
  The eviction loop: a cached key that is not required is queued for removal after
  \<^verbatim>\<open>chunk.mesh.geometry.dispose()\<close>, which throws when the mesh is \<^verbatim>\<open>null\<close>.
\<close>

fun chunksToRemove :: "chunk_key list \<Rightarrow> (chunk_key \<times> chunk) list \<Rightarrow> js_error + chunk_key list" where
  "chunksToRemove required [] = Inr []"
| "chunksToRemove required ((k, c) # rest) =
     (if k \<in> set required then chunksToRemove required rest
      else (case mesh c of
              None \<Rightarrow> Inl TypeError
            | Some m \<Rightarrow> (case chunksToRemove required rest of
                           Inl e \<Rightarrow> Inl e
                         | Inr ks \<Rightarrow> Inr (k # ks))))"

definition updateTerrainChunks ::
  "height_fn \<Rightarrow> real \<times> real \<Rightarrow> UnifiedTerrain \<Rightarrow> js_error + UnifiedTerrain" where
  "updateTerrainChunks H playerPosition t =
     (if chunkSize t = 0 then Inl NonFinite
      else (let required = requiredChunks t playerPosition
            in case create_missing H t required (terrainChunks t) of
                 Inl e \<Rightarrow> Inl e
               | Inr chunks \<Rightarrow>
                   (case chunksToRemove required chunks of
                      Inl e \<Rightarrow> Inl e
                    | Inr ks \<Rightarrow> Inr (t\<lparr>terrainChunks := fold AList.delete ks chunks\<rparr>))))"

subsection \<open>animateTerrainChunks\<close>

definition wave_height :: "UnifiedTerrain \<Rightarrow> real \<Rightarrow> real \<Rightarrow> real" where
  "wave_height t x z =
     sin (x * waveFreq t + z * waveFreq t + wavePhase t) * waveAmp t
     + cos (x * waveFreq t * 1.3 + wavePhase t * 1.2) * waveAmp t * 0.6"

text \<open>
  One iteration of the vertex loop. A write past the end of the typed array is ignored;
  a read past its end gives \<^verbatim>\<open>undefined\<close>, which the arithmetic turns into \<^verbatim>\<open>NaN\<close>.
\<close>

definition animate_vertex :: "UnifiedTerrain \<Rightarrow> real list \<Rightarrow> nat \<Rightarrow> real list \<Rightarrow> js_error + real list" where
  "animate_vertex t heights i posArray =
     (if i * 3 + 1 < length posArray
      then (if i * 3 + 2 < length posArray
            then Inr (posArray[i * 3 + 1 :=
                   heights ! i + wave_height t (posArray ! (i * 3)) (posArray ! (i * 3 + 2))])
            else Inl NonFinite)
      else Inr posArray)"

definition animate_chunk :: "UnifiedTerrain \<Rightarrow> chunk_key \<times> chunk \<Rightarrow> js_error + chunk_key \<times> chunk" where
  "animate_chunk t kc =
     (case mesh (snd kc) of
        None \<Rightarrow> Inr kc
      | Some m \<Rightarrow>
          (case fold_err (animate_vertex t (originalHeights (snd kc)))
                  [0..<length (originalHeights (snd kc))] (positions m) of
             Inl e \<Rightarrow> Inl e
           | Inr ps \<Rightarrow> Inr (fst kc, (snd kc)\<lparr>mesh := Some (m\<lparr>positions := ps\<rparr>)\<rparr>)))"

definition animateTerrainChunks :: "UnifiedTerrain \<Rightarrow> js_error + UnifiedTerrain" where
  "animateTerrainChunks t =
     (case map_err (animate_chunk t) (terrainChunks t) of
        Inl e \<Rightarrow> Inl e
      | Inr chunks \<Rightarrow> Inr (t\<lparr>terrainChunks := chunks\<rparr>))"

subsection \<open>The regeneration transition\<close>

text \<open>\<^verbatim>\<open>Math.min(1, this._regenLerpTime / this._regenLerpDuration)\<close>\<close>

definition lerp_factor :: "real \<Rightarrow> real \<Rightarrow> js_error + real" where
  "lerp_factor time duration =
     (if duration = 0 then (if 0 < time then Inr 1 else Inl NonFinite)
      else Inr (min 1 (time / duration)))"

text \<open>
  One iteration of \<^verbatim>\<open>positions[i * 3 + 1] = oldH + (newH - oldH) * t\<close>. The source evaluates
  the right-hand side in double precision and the typed array keeps it rounded to single
  precision; the model writes the value of the expression over the reals. What is proved
  below of this loop is which entries it reads and writes and when it throws, not the
  value it stores.
\<close>

definition lerp_vertex :: "real list \<Rightarrow> real list \<Rightarrow> real \<Rightarrow> nat \<Rightarrow> real list \<Rightarrow> js_error + real list" where
  "lerp_vertex olds news tt i ps =
     (if i < length olds \<and> i < length news
      then Inr (ps[i * 3 + 1 := olds ! i + (news ! i - olds ! i) * tt])
      else if i * 3 + 1 < length ps then Inl NonFinite
      else Inr ps)"

definition lerp_chunk :: "UnifiedTerrain \<Rightarrow> real \<Rightarrow> chunk_key \<times> chunk \<Rightarrow> js_error + chunk_key \<times> chunk" where
  "lerp_chunk t tt kc =
     (case mesh (snd kc) of
        None \<Rightarrow> Inl TypeError
      | Some m \<Rightarrow>
          (if originalHeights (snd kc) = [] then Inr kc
           else (case map_of (regenOldHeights t) (fst kc) of
                   None \<Rightarrow> Inl TypeError
                 | Some olds \<Rightarrow>
                     (case map_of (regenNewHeights t) (fst kc) of
                        None \<Rightarrow> Inl TypeError
                      | Some news \<Rightarrow>
                          (case fold_err (lerp_vertex olds news tt)
                                  [0..<length (originalHeights (snd kc))] (positions m) of
                             Inl e \<Rightarrow> Inl e
                           | Inr ps \<Rightarrow>
                               Inr (fst kc, (snd kc)\<lparr>mesh := Some (m\<lparr>positions := ps\<rparr>)\<rparr>))))))"

text \<open>The loop that finishes the transition: \<^verbatim>\<open>chunk.originalHeights[i] = this._regenNewHeights[chunkKey][i]\<close>.\<close>

definition adopt_vertex :: "real list \<Rightarrow> nat \<Rightarrow> real list \<Rightarrow> js_error + real list" where
  "adopt_vertex news i heights =
     (if i < length news then Inr (heights[i := news ! i]) else Inl NonFinite)"

definition adopt_chunk :: "UnifiedTerrain \<Rightarrow> chunk_key \<times> chunk \<Rightarrow> js_error + chunk_key \<times> chunk" where
  "adopt_chunk t kc =
     (if originalHeights (snd kc) = [] then Inr kc
      else (case map_of (regenNewHeights t) (fst kc) of
              None \<Rightarrow> Inl TypeError
            | Some news \<Rightarrow>
                (case fold_err (adopt_vertex news)
                        [0..<length (originalHeights (snd kc))] (originalHeights (snd kc)) of
                   Inl e \<Rightarrow> Inl e
                 | Inr hs \<Rightarrow> Inr (fst kc, (snd kc)\<lparr>originalHeights := hs\<rparr>))))"

text \<open>The block \<^verbatim>\<open>if (this._regenLerpActive) { ... }\<close> of \<^verbatim>\<open>update\<close>.\<close>

definition regenLerpStep :: "real \<Rightarrow> UnifiedTerrain \<Rightarrow> js_error + UnifiedTerrain" where
  "regenLerpStep deltaTime t =
     (if \<not> regenLerpActive t then Inr t
      else (let time = regenLerpTime t + deltaTime
            in case lerp_factor time (regenLerpDuration t) of
                 Inl e \<Rightarrow> Inl e
               | Inr tt \<Rightarrow>
                   (case map_err (lerp_chunk t tt) (terrainChunks t) of
                      Inl e \<Rightarrow> Inl e
                    | Inr chunks \<Rightarrow>
                        (if 1 \<le> tt
                         then (case map_err (adopt_chunk t) chunks of
                                 Inl e \<Rightarrow> Inl e
                               | Inr chunks' \<Rightarrow>
                                   Inr (t\<lparr>regenLerpTime := time, terrainSeed := regenSeed t,
                                          terrainChunks := chunks', regenLerpActive := False\<rparr>))
                         else Inr (t\<lparr>regenLerpTime := time, terrainChunks := chunks\<rparr>)))))"

definition update :: "height_fn \<Rightarrow> real \<Rightarrow> real \<times> real \<Rightarrow> UnifiedTerrain \<Rightarrow> js_error + UnifiedTerrain" where
  "update H deltaTime playerPosition t =
     (case updateTerrainChunks H playerPosition (t\<lparr>wavePhase := wavePhase t + deltaTime * waveSpeed t\<rparr>) of
        Inl e \<Rightarrow> Inl e
      | Inr t1 \<Rightarrow>
          (case animateTerrainChunks t1 of
             Inl e \<Rightarrow> Inl e
           | Inr t2 \<Rightarrow> regenLerpStep deltaTime t2))"

subsection \<open>regenerateTerrain and the seed entry points\<close>

definition new_height :: "seeded_height_fn \<Rightarrow> int option \<Rightarrow> real list \<Rightarrow> nat \<Rightarrow> js_error + real" where
  "new_height G newSeed ps i =
     (if i * 3 + 2 < length ps then Inr (G (ps ! (i * 3)) (ps ! (i * 3 + 2)) newSeed)
      else Inl NonFinite)"

definition regen_chunk ::
  "seeded_height_fn \<Rightarrow> int option \<Rightarrow> chunk_key \<times> chunk
     \<Rightarrow> (chunk_key \<times> real list) list \<times> (chunk_key \<times> real list) list
     \<Rightarrow> js_error + (chunk_key \<times> real list) list \<times> (chunk_key \<times> real list) list" where
  "regen_chunk G newSeed kc tabs =
     (case mesh (snd kc) of
        None \<Rightarrow> Inl TypeError
      | Some m \<Rightarrow>
          (case map_err (new_height G newSeed (positions m)) [0..<length (originalHeights (snd kc))] of
             Inl e \<Rightarrow> Inl e
           | Inr newHeights \<Rightarrow>
               Inr (AList.update (fst kc) (originalHeights (snd kc)) (fst tabs),
                    AList.update (fst kc) newHeights (snd tabs))))"

definition regenerateTerrain ::
  "seeded_height_fn \<Rightarrow> int option \<Rightarrow> real \<Rightarrow> UnifiedTerrain \<Rightarrow> js_error + UnifiedTerrain" where
  "regenerateTerrain G newSeed duration t =
     (case fold_err (regen_chunk G newSeed) (terrainChunks t) ([], []) of
        Inl e \<Rightarrow> Inl e
      | Inr tabs \<Rightarrow>
          Inr (t\<lparr>regenOldHeights := fst tabs, regenNewHeights := snd tabs, regenSeed := newSeed,
                 regenLerpTime := 0, regenLerpDuration := duration, regenLerpActive := True\<rparr>))"

text \<open>
  \<^verbatim>\<open>setTerrainSeedAndRegenerate\<close> in the order of the source: the cache is cleared, the
  seed is stored, and only then is the size of the cache tested.
\<close>

definition setTerrainSeedAndRegenerate ::
  "seeded_height_fn \<Rightarrow> int option \<Rightarrow> real \<Rightarrow> UnifiedTerrain \<Rightarrow> js_error + UnifiedTerrain" where
  "setTerrainSeedAndRegenerate G seed duration t =
     (let t1 = t\<lparr>terrainChunks := []\<rparr>;
          t2 = t1\<lparr>terrainSeed := seed\<rparr>
      in if 0 < length (terrainChunks t2) then regenerateTerrain G seed duration t2 else Inr t2)"

definition onHostSeedReceived ::
  "seeded_height_fn \<Rightarrow> int option \<Rightarrow> real \<Rightarrow> UnifiedTerrain \<Rightarrow> js_error + UnifiedTerrain" where
  "onHostSeedReceived G hostSeed duration t = setTerrainSeedAndRegenerate G hostSeed duration t"

subsection \<open>The constructor, and a small configuration\<close>

text \<open>
  The fields the constructor sets. The argument is the value of \<^verbatim>\<open>window.globalTerrainSeed\<close>
  after the constructor has replaced a missing or zero value by
  \<^verbatim>\<open>Math.floor(Math.random() * 1e9)\<close>. The tables of the transition are \<^verbatim>\<open>null\<close> until
  \<open>regenerateTerrain\<close> assigns them, and are not read before; they are empty lists here.
\<close>

definition new_UnifiedTerrain :: "int option \<Rightarrow> UnifiedTerrain" where
  "new_UnifiedTerrain seed =
     \<lparr>chunkSize = 200, chunkResolution = 32, renderDistance = 3200, terrainChunks = [],
      terrainSeed = seed, wavePhase = 0, waveSpeed = 0.8, waveAmp = 0.15, waveFreq = 0.4,
      regenLerpActive = False, regenLerpTime = 0, regenLerpDuration = 0,
      regenOldHeights = [], regenNewHeights = [], regenSeed = None\<rparr>"

text \<open>
  The configuration of the specification's streaming example: chunk size \<open>100\<close>, render
  distance \<open>150\<close>, with one cell per chunk.
\<close>

definition small_terrain :: "int option \<Rightarrow> UnifiedTerrain" where
  "small_terrain seed =
     (new_UnifiedTerrain seed)\<lparr>chunkSize := 100, chunkResolution := 1, renderDistance := 150\<rparr>"

text \<open>Two stand-ins for the height functions, used where a concrete run is evaluated.\<close>

definition sample_height :: height_fn where
  "sample_height seed x z = (case seed of None \<Rightarrow> 0 | Some s \<Rightarrow> of_int s + x + 2 * z)"

definition sample_seeded_height :: seeded_height_fn where
  "sample_seeded_height x z seed = sample_height seed x z"

text \<open>The centre of a chunk in world coordinates, and the Euclidean distance in the plane.\<close>

definition chunk_center :: "UnifiedTerrain \<Rightarrow> chunk_key \<Rightarrow> real \<times> real" where
  "chunk_center t k = (of_int (fst k) * chunkSize t, of_int (snd k) * chunkSize t)"

definition euclid :: "real \<times> real \<Rightarrow> real \<times> real \<Rightarrow> real" where
  "euclid p q = sqrt ((fst p - fst q)\<^sup>2 + (snd p - snd q)\<^sup>2)"

text \<open>The reference point moved down to the chunk grid, as \<open>updateTerrainChunks\<close> uses it.\<close>

definition snapped :: "UnifiedTerrain \<Rightarrow> real \<times> real \<Rightarrow> real \<times> real" where
  "snapped t p =
     (of_int \<lfloor>fst p / chunkSize t\<rfloor> * chunkSize t, of_int \<lfloor>snd p / chunkSize t\<rfloor> * chunkSize t)"

text \<open>The keys cached in the result of an operation, when it returns.\<close>

definition cached_keys :: "js_error + UnifiedTerrain \<Rightarrow> chunk_key set option" where
  "cached_keys r = (case r of Inl e \<Rightarrow> None | Inr t \<Rightarrow> Some (set (map fst (terrainChunks t))))"

text \<open>
  A cached chunk as \<open>createTerrainChunk\<close> builds it under a seed: a mesh, one height per
  vertex, three position entries per vertex.
\<close>

definition chunk_built :: "UnifiedTerrain \<Rightarrow> chunk \<Rightarrow> bool" where
  "chunk_built t c =
     (case mesh c of
        None \<Rightarrow> False
      | Some m \<Rightarrow> length (originalHeights c) = (chunkResolution t + 1)\<^sup>2
                  \<and> length (positions m) = 3 * length (originalHeights c))"

text \<open>
  The position of vertex \<open>(x, z)\<close> of a chunk in the order of the creation loops, and the
  \<open>(x, y, z)\<close> entries a mesh holds for a vertex.
\<close>

definition vertex_index :: "UnifiedTerrain \<Rightarrow> nat \<Rightarrow> nat \<Rightarrow> nat" where
  "vertex_index t x z = z * (chunkResolution t + 1) + x"

definition chunk_vertex :: "chunk \<Rightarrow> nat \<Rightarrow> (real \<times> real \<times> real) option" where
  "chunk_vertex c i =
     (case mesh c of
        None \<Rightarrow> None
      | Some m \<Rightarrow>
          if i * 3 + 2 < length (positions m)
          then Some (positions m ! (i * 3), positions m ! (i * 3 + 1), positions m ! (i * 3 + 2))
          else None)"

text \<open>The weaker shape every cached chunk has: a mesh, if any, has three position entries per height.\<close>

definition chunk_shaped :: "chunk \<Rightarrow> bool" where
  "chunk_shaped c =
     (case mesh c of
        None \<Rightarrow> True
      | Some m \<Rightarrow> length (positions m) = 3 * length (originalHeights c))"

text \<open>
  What a running transition needs of a cached chunk for a frame to complete: a mesh, and
  entries in both tables that are long enough.
\<close>

definition regen_covers :: "UnifiedTerrain \<Rightarrow> chunk_key \<times> chunk \<Rightarrow> bool" where
  "regen_covers t kc =
     (mesh (snd kc) \<noteq> None
      \<and> (\<exists>olds news. map_of (regenOldHeights t) (fst kc) = Some olds
            \<and> map_of (regenNewHeights t) (fst kc) = Some news
            \<and> length (originalHeights (snd kc)) \<le> length olds
            \<and> length (originalHeights (snd kc)) \<le> length news))"

section \<open>The trench pass of generateTerrainHeight\<close>

text \<open>
  The last stage of \<^verbatim>\<open>generateTerrainHeight\<close> visits the \<open>5 \<times> 5\<close> grid cells around the
  sample. What each cell contributes is computed from the cell's own random streams in
  floating point; the pass itself only compares and blends. A cell is therefore given by
  the values the pass reads: whether the wide trench is present, what its mountain
  roughness subtracts from the running depth (\<open>0\<close> when the factor is at most \<open>0.6\<close>),
  and for the wide and for the snaking trench whether the sample lies in the footprint,
  the blend weight and the trench depth there. The snaking trench of a cell is inside the
  branch of the wide one, as in the source.
\<close>

record trench_candidate =
  inFootprint :: bool
  blend :: real
  trenchDepth :: real


text \<open>
  The running pair is \<open>(trenchFinalBlend, trenchFinalDepth)\<close>.
  \<^verbatim>\<open>const blended = trenchDepth * blend + trenchFinalDepth * (1 - blend);\<close>
  \<^verbatim>\<open>if (blend > trenchFinalBlend || blended < trenchFinalDepth) { ... }\<close>
\<close>

definition trench_select :: "trench_candidate \<Rightarrow> real \<times> real \<Rightarrow> real \<times> real" where
  "trench_select c st =
     (if inFootprint c
      then (let blended = trenchDepth c * blend c + snd st * (1 - blend c)
            in if blend c > fst st \<or> blended < snd st then (blend c, blended) else st)
      else st)"







section \<open>The leader of a lobby (networkWorker.js)\<close>

text \<open>
  The module state of the worker that \<^verbatim>\<open>tryBecomeBase\<close> initialises and its connection
  handlers change. A connection is an object; it is modelled by a number standing for its
  identity, and its \<^verbatim>\<open>open\<close> flag by membership in \<open>openConns\<close>. The object
  \<open>lobbyPeerConnections\<close> is an association list in insertion order, the order in which
  \<^verbatim>\<open>for ... in\<close> and \<^verbatim>\<open>Object.entries\<close> enumerate keys that are not array indices.
  \<open>outbox\<close> collects the calls of \<^verbatim>\<open>send\<close> in order, \<open>networkData\<close> the packets
  posted to the main thread; log and user-interface posts are left out.

  Identities are strings, as the peers generate them (\<^verbatim>\<open>ChainNode-\<close> and eight characters);
  a string that names an inherited property of a JavaScript object is not considered. A
  packet of type \<open>join\<close>, \<open>join_host\<close>, \<open>message\<close> or \<open>player_state\<close> carries its
  \<open>peerId\<close> as first argument, the relayed ones an opaque payload as second. The handlers
  are those of one call of \<^verbatim>\<open>tryBecomeBase\<close>.
\<close>

datatype packet =
    Join string
  | JoinHost string
  | Message string string
  | PlayerState string string
  | RedirectToHost string nat nat
  | LobbyFull
  | Waiting nat nat
  | HostReady string "string list"

record leader =
  myPeerId :: string
  lobbySize :: nat
  lobbyConnectedPeers :: "string list"
  lobbyPeerConnections :: "(string \<times> nat) list"
  lobbyFull :: bool
  openConns :: "nat set"
  outbox :: "(nat \<times> packet) list"
  networkData :: "packet list"

text \<open>\<^verbatim>\<open>LOBBY_SIZE = lobbySize || LOBBY_SIZE\<close>, with the default \<open>3\<close>.\<close>

definition init_lobby_size :: "nat \<Rightarrow> nat" where
  "init_lobby_size n = (if n = 0 then 3 else n)"

definition tryBecomeBase :: "nat \<Rightarrow> string \<Rightarrow> leader" where
  "tryBecomeBase n me =
     \<lparr>myPeerId = me, lobbySize = init_lobby_size n, lobbyConnectedPeers = [me],
      lobbyPeerConnections = [], lobbyFull = False, openConns = {}, outbox = [],
      networkData = []\<rparr>"

definition send :: "nat \<Rightarrow> packet \<Rightarrow> leader \<Rightarrow> leader" where
  "send conn p s = s\<lparr>outbox := outbox s @ [(conn, p)]\<rparr>"

text \<open>The discovery handler on the rendezvous peer: a reply, then \<^verbatim>\<open>conn.close()\<close>.\<close>

definition on_join :: "nat \<Rightarrow> string \<Rightarrow> leader \<Rightarrow> leader" where
  "on_join conn peerId s =
     (let reply = (if lobbyFull s \<or> length (lobbyConnectedPeers s) \<ge> lobbySize s
                   then LobbyFull
                   else RedirectToHost (myPeerId s) (length (lobbyConnectedPeers s)) (lobbySize s));
          s1 = send conn reply s
      in s1\<lparr>openConns := openConns s1 - {conn}\<rparr>)"

text \<open>The loop \<^verbatim>\<open>for (let i = 1; i < lobbyConnectedPeers.length; i++)\<close> that announces a full lobby.\<close>

definition notify_ready :: "leader \<Rightarrow> leader" where
  "notify_ready s =
     fold (\<lambda>peerId s'. case map_of (lobbyPeerConnections s') peerId of
                          None \<Rightarrow> s'
                        | Some c \<Rightarrow> send c (HostReady (myPeerId s') (lobbyConnectedPeers s')) s')
       (tl (lobbyConnectedPeers s)) s"

definition on_join_host :: "nat \<Rightarrow> string \<Rightarrow> leader \<Rightarrow> leader" where
  "on_join_host conn peerId s =
     (if peerId \<in> set (lobbyConnectedPeers s)
         \<and> (case map_of (lobbyPeerConnections s) peerId of
               None \<Rightarrow> False
             | Some c \<Rightarrow> c \<noteq> conn \<and> c \<in> openConns s)
      then send conn (Waiting (length (lobbyConnectedPeers s)) (lobbySize s)) s
      else (let s1 = (if peerId \<in> set (lobbyConnectedPeers s) then s
                      else s\<lparr>lobbyConnectedPeers := lobbyConnectedPeers s @ [peerId]\<rparr>);
                s2 = (case map_of (lobbyPeerConnections s1) peerId of
                        None \<Rightarrow> s1\<lparr>lobbyPeerConnections := AList.update peerId conn (lobbyPeerConnections s1)\<rparr>
                      | Some c \<Rightarrow>
                          if c \<in> openConns s1 then s1
                          else s1\<lparr>lobbyPeerConnections := AList.update peerId conn (lobbyPeerConnections s1)\<rparr>)
            in if length (lobbyConnectedPeers s2) = lobbySize s2
               then notify_ready (s2\<lparr>lobbyFull := True\<rparr>)
               else send conn (Waiting (length (lobbyConnectedPeers s2)) (lobbySize s2)) s2))"

text \<open>
  The relay loop over \<^verbatim>\<open>Object.entries(lobbyPeerConnections)\<close>: the entries that are sent
  the packet whose \<open>peerId\<close> field is \<open>sender\<close>.
\<close>

definition relay_targets :: "leader \<Rightarrow> string \<Rightarrow> (string \<times> nat) list" where
  "relay_targets s sender =
     filter (\<lambda>(peerId, c). peerId \<noteq> sender \<and> c \<in> openConns s) (lobbyPeerConnections s)"

definition on_relay :: "string \<Rightarrow> packet \<Rightarrow> leader \<Rightarrow> leader" where
  "on_relay sender p s =
     (let s1 = fold (\<lambda>(peerId, c) s'. send c p s') (relay_targets s sender) s
      in s1\<lparr>networkData := networkData s1 @ [p]\<rparr>)"

definition on_data :: "nat \<Rightarrow> packet \<Rightarrow> leader \<Rightarrow> leader" where
  "on_data conn p s =
     (case p of
        JoinHost peerId \<Rightarrow> on_join_host conn peerId s
      | Message sender payload \<Rightarrow> on_relay sender p s
      | PlayerState sender payload \<Rightarrow> on_relay sender p s
      | _ \<Rightarrow> s)"

text \<open>
  The close handler. The loop takes the first tracked identity whose connection is the
  closing one; \<^verbatim>\<open>if (disconnectedPeerId)\<close> is false for no match and for the empty string.
  First is meant in insertion order: \<^verbatim>\<open>for ... in\<close> would visit a key that is an array index,
  such as \<^verbatim>\<open>"1"\<close>, before the others, and no peer generates such an identity.
\<close>

definition on_close :: "nat \<Rightarrow> leader \<Rightarrow> leader" where
  "on_close conn s =
     (case find (\<lambda>(pid, c). c = conn) (lobbyPeerConnections s) of
        None \<Rightarrow> s
      | Some (disconnectedPeerId, c) \<Rightarrow>
          if disconnectedPeerId = [] then s
          else if map_of (lobbyPeerConnections s) disconnectedPeerId = Some conn
          then s\<lparr>lobbyConnectedPeers := remove1 disconnectedPeerId (lobbyConnectedPeers s),
                 lobbyPeerConnections := AList.delete disconnectedPeerId (lobbyPeerConnections s),
                 lobbyFull := False\<rparr>
          else s)"

text \<open>
  The events the leader reacts to. Data arrives on an open connection only, and a
  connection is no longer open when its close event is delivered.
\<close>

datatype event =
    HostData nat packet
  | HostClose nat
  | BaseData nat packet

fun leader_step :: "event \<Rightarrow> leader \<Rightarrow> leader" where
  "leader_step (HostData conn p) s = on_data conn p (s\<lparr>openConns := insert conn (openConns s)\<rparr>)"
| "leader_step (HostClose conn) s = on_close conn (s\<lparr>openConns := openConns s - {conn}\<rparr>)"
| "leader_step (BaseData conn p) s =
     (case p of Join peerId \<Rightarrow> on_join conn peerId (s\<lparr>openConns := insert conn (openConns s)\<rparr>)
      | _ \<Rightarrow> s)"

text \<open>The state after a sequence of events, starting from \<open>tryBecomeBase\<close>.\<close>

definition run_leader :: "nat \<Rightarrow> string \<Rightarrow> event list \<Rightarrow> leader" where
  "run_leader n me evs = fold leader_step evs (tryBecomeBase n me)"

section \<open>Concrete states\<close>

text \<open>A generator in the small configuration with the single chunk \<open>(0, 0)\<close> cached.\<close>

definition one_chunk_terrain :: UnifiedTerrain where
  "one_chunk_terrain =
     (let t = small_terrain (Some 5)
      in case createTerrainChunk sample_height t 0 0 of
           Inl e \<Rightarrow> t
         | Inr c \<Rightarrow> t\<lparr>terrainChunks := [((0, 0), c)]\<rparr>)"

text \<open>A generator whose seed is zero, with the chunk \<open>(0, 0)\<close> as it is created without a seed.\<close>

definition null_chunk_terrain :: UnifiedTerrain where
  "null_chunk_terrain =
     (small_terrain (Some 0))\<lparr>terrainChunks :=
        [((0, 0), \<lparr>mesh = None, chunkX = 0, chunkZ = 0, originalHeights = []\<rparr>)]\<rparr>"

text \<open>
  A configuration with render distance \<open>0\<close>, in which only the chunk under the reference
  point is required, and a generator in that configuration in the state \<open>regenerateTerrain\<close>
  leaves: the chunk \<open>(0, 0)\<close> as created under seed \<open>5\<close>, and a transition of duration
  \<open>1\<close> towards the heights of seed \<open>7\<close>.
\<close>

definition spot_terrain :: UnifiedTerrain where
  "spot_terrain = (small_terrain (Some 5))\<lparr>renderDistance := 0\<rparr>"

definition regen_demo :: UnifiedTerrain where
  "regen_demo =
     spot_terrain\<lparr>terrainChunks :=
        [((0, 0), \<lparr>mesh = Some \<lparr>positions = [- 50, - 145, - 50, 50, - 45, - 50,
                                               - 50, 55, 50, 50, 155, 50]\<rparr>,
                   chunkX = 0, chunkZ = 0, originalHeights = [- 145, - 45, 55, 155]\<rparr>)],
        regenLerpActive := True, regenLerpTime := 0, regenLerpDuration := 1,
        regenOldHeights := [((0, 0), [- 145, - 45, 55, 155])],
        regenNewHeights := [((0, 0), [- 143, - 43, 57, 157])],
        regenSeed := Some 7\<rparr>"

text \<open>A leader \<open>A\<close> of a lobby of two that \<open>B\<close> has joined, and one of three with \<open>B\<close> and \<open>C\<close>.\<close>

definition lobby2 :: leader where
  "lobby2 = run_leader 2 ''A'' [HostData 1 (JoinHost ''B'')]"

definition lobby3 :: leader where
  "lobby3 = run_leader 3 ''A'' [HostData 1 (JoinHost ''B''), HostData 2 (JoinHost ''C'')]"

section \<open>The zero seed of the random stream\<close>

lemma rand_call_zero: "rand_call 0 = (0, 0)"
  by (simp add: rand_call_def)

lemma rand_state_zero: "rand_state 0 n = 0"
  by (induction n) (simp_all add: rand_call_zero)

text \<open>
  C8: every draw from the stream made by \<open>seededRandom 0\<close> is exactly \<open>0\<close>, at every draw
  index: the zero seed gives the state \<open>0\<close>, which the scrambling step maps to itself, so
  the state after any number of draws is again the initial one, and a stream instantiated
  again from the same seed starts from the same state and repeats the sequence.
\<close>

theorem seededRandom_zero_constant:
  "rand_draw (seededRandom 0) n = 0
   \<and> snd (rand_call (seededRandom 0)) = seededRandom 0
   \<and> rand_state (seededRandom 0) n = seededRandom 0"
proof -
  have d: "rand_draw 0 n = 0"
    by (induction n) (simp_all add: rand_call_zero)
  show ?thesis
    by (simp add: seededRandom_def d rand_call_zero rand_state_zero)
qed

section \<open>Seed synchronisation\<close>

lemma setTerrainSeedAndRegenerate_result:
  "setTerrainSeedAndRegenerate G seed d t = Inr (t\<lparr>terrainChunks := [], terrainSeed := seed\<rparr>)"
  by (simp add: setTerrainSeedAndRegenerate_def)

lemma one_chunk_terrain_cached: "length (terrainChunks one_chunk_terrain) = 1"
  by (simp add: one_chunk_terrain_def small_terrain_def new_UnifiedTerrain_def
      createTerrainChunk_def no_seed_def Let_def)

lemma one_chunk_terrain_inactive: "\<not> regenLerpActive one_chunk_terrain"
  by (simp add: one_chunk_terrain_def small_terrain_def new_UnifiedTerrain_def
      createTerrainChunk_def no_seed_def Let_def)

text \<open>
  C1: the seed entry point, called while one chunk is cached. The claim expects new
  heights for every cached chunk and an active transition. The source clears the cache
  before it tests \<^verbatim>\<open>this.terrainChunks.size > 0\<close>, so the call to \<open>regenerateTerrain\<close>
  is never reached: the result has an empty cache, the new seed, and no transition.
\<close>

theorem seed_sync_drops_cache_without_transition:
  "length (terrainChunks one_chunk_terrain) = 1
   \<and> \<not> regenLerpActive one_chunk_terrain
   \<and> onHostSeedReceived sample_seeded_height (Some 7) 1 one_chunk_terrain
       = Inr (one_chunk_terrain\<lparr>terrainChunks := [], terrainSeed := Some 7\<rparr>)
   \<and> \<not> regenLerpActive (one_chunk_terrain\<lparr>terrainChunks := [], terrainSeed := Some 7\<rparr>)"
  by (simp add: one_chunk_terrain_cached one_chunk_terrain_inactive onHostSeedReceived_def
      setTerrainSeedAndRegenerate_result)

section \<open>The trench pass\<close>





text \<open>
  The acceptance test has two disjuncts. By the first, a candidate with a larger blend
  weight than the running one replaces the running pair whatever its depth; when its
  trench depth is above the running depth, the running depth rises.
\<close>

lemma trench_select_larger_blend:
  assumes "inFootprint c" and "fst st < blend c"
  shows "trench_select c st = (blend c, trenchDepth c * blend c + snd st * (1 - blend c))"
  using assms by (simp add: trench_select_def Let_def)

lemma trench_select_raises_depth:
  assumes "inFootprint c" and "fst st < blend c" and "0 < blend c" and "snd st < trenchDepth c"
  shows "snd st < snd (trench_select c st)"
proof -
  have "0 < blend c * (trenchDepth c - snd st)"
    using assms(3,4) by simp
  then have "snd st < trenchDepth c * blend c + snd st * (1 - blend c)"
    by (simp add: algebra_simps)
  then show ?thesis
    unfolding trench_select_larger_blend[OF assms(1,2)] by simp
qed


section \<open>The leader's roster\<close>

lemmas leader_defs = run_leader_def tryBecomeBase_def init_lobby_size_def on_data_def
  on_join_host_def on_join_def on_close_def on_relay_def relay_targets_def send_def
  notify_ready_def Let_def

text \<open>
  C2: the roster never exceeds the capacity, and the lobby is marked full exactly when
  the roster has that length. The discovery handler refuses a \<open>join\<close> at capacity, but
  the \<open>join_host\<close> handler appends a new identity without looking at the capacity or at
  the full flag. With capacity \<open>3\<close> and leader \<open>A\<close>, three direct joins give a roster of
  four that is still marked full, while the same fourth peer asking through discovery is
  answered \<open>lobby_full\<close>.
\<close>

theorem join_host_exceeds_capacity:
  "lobbyConnectedPeers (run_leader 3 ''A''
      [HostData 1 (JoinHost ''B''), HostData 2 (JoinHost ''C''), HostData 3 (JoinHost ''D'')])
     = [''A'', ''B'', ''C'', ''D'']
   \<and> lobbySize (run_leader 3 ''A''
      [HostData 1 (JoinHost ''B''), HostData 2 (JoinHost ''C''), HostData 3 (JoinHost ''D'')]) = 3
   \<and> lobbyFull (run_leader 3 ''A''
      [HostData 1 (JoinHost ''B''), HostData 2 (JoinHost ''C''), HostData 3 (JoinHost ''D'')])
   \<and> outbox (run_leader 3 ''A''
      [HostData 1 (JoinHost ''B''), HostData 2 (JoinHost ''C''), BaseData 3 (Join ''D'')]) ! 3
     = (3, LobbyFull)"
  by (simp add: leader_defs)

lemma fold_send_fields:
  "lobbyConnectedPeers (fold (\<lambda>x s'. case f s' x of None \<Rightarrow> s' | Some c \<Rightarrow> send c (g s') s') xs s)
     = lobbyConnectedPeers s
   \<and> lobbyPeerConnections (fold (\<lambda>x s'. case f s' x of None \<Rightarrow> s' | Some c \<Rightarrow> send c (g s') s') xs s)
     = lobbyPeerConnections s
   \<and> lobbyFull (fold (\<lambda>x s'. case f s' x of None \<Rightarrow> s' | Some c \<Rightarrow> send c (g s') s') xs s)
     = lobbyFull s
   \<and> lobbySize (fold (\<lambda>x s'. case f s' x of None \<Rightarrow> s' | Some c \<Rightarrow> send c (g s') s') xs s)
     = lobbySize s"
  by (induction xs arbitrary: s) (auto simp: send_def split: option.splits)

lemma notify_ready_fields:
  "lobbyConnectedPeers (notify_ready s) = lobbyConnectedPeers s"
  "lobbyPeerConnections (notify_ready s) = lobbyPeerConnections s"
  "lobbyFull (notify_ready s) = lobbyFull s"
  "lobbySize (notify_ready s) = lobbySize s"
  unfolding notify_ready_def
  using fold_send_fields[where f = "\<lambda>s' x. map_of (lobbyPeerConnections s') x"
      and g = "\<lambda>s'. HostReady (myPeerId s') (lobbyConnectedPeers s')"
      and xs = "tl (lobbyConnectedPeers s)" and s = s]
  by simp_all

lemma find_only:
  assumes "map_of al pid = Some conn"
      and "\<forall>p c. (p, c) \<in> set al \<and> c = conn \<longrightarrow> p = pid"
  shows "find (\<lambda>(p, c). c = conn) al = Some (pid, conn)"
  using assms
proof (induction al)
  case Nil
  then show ?case by simp
next
  case (Cons a al)
  then show ?case by (cases a) (auto split: if_splits)
qed

lemma on_close_roster:
  "lobbyConnectedPeers (on_close conn s) = lobbyConnectedPeers s
   \<or> (\<exists>p. p \<noteq> [] \<and> map_of (lobbyPeerConnections s) p = Some conn
          \<and> lobbyConnectedPeers (on_close conn s) = remove1 p (lobbyConnectedPeers s))"
  by (auto simp: on_close_def split: option.splits)

lemma join_host_newcomer:
  assumes "q \<notin> set (lobbyConnectedPeers s)"
  shows "lobbyConnectedPeers (leader_step (HostData c (JoinHost q)) s) = lobbyConnectedPeers s @ [q]"
    and "length (lobbyConnectedPeers s) + 1 = lobbySize s
         \<Longrightarrow> lobbyFull (leader_step (HostData c (JoinHost q)) s)"
  using assms
  by (auto simp: on_data_def on_join_host_def Let_def notify_ready_fields send_def
      split: option.splits)

text \<open>
  C6: a close event removes an identity from the roster only if the closing connection
  is the one tracked for that identity (first conjunct, for any state \<open>s'\<close>, connection
  \<open>c'\<close> and identity \<open>p\<close>), so the close of a connection that has been replaced evicts
  nobody. When the connection tracked for the member \<open>pid\<close> of a full lobby closes, the
  member leaves the roster and the lobby is no longer full; a \<open>join_host\<close> of a new peer
  \<open>q\<close> then brings the roster back to capacity and marks it full again. Identities are
  the non-empty strings the peers generate.
\<close>

theorem close_evicts_only_tracked_connection:
  assumes tracked: "map_of (lobbyPeerConnections s) pid = Some conn"
      and only: "\<forall>p c. (p, c) \<in> set (lobbyPeerConnections s) \<and> c = conn \<longrightarrow> p = pid"
      and nonempty: "pid \<noteq> []"
      and roster: "distinct (lobbyConnectedPeers s)" "pid \<in> set (lobbyConnectedPeers s)"
      and full: "lobbyFull s" "length (lobbyConnectedPeers s) = lobbySize s"
      and newcomer: "q \<notin> set (lobbyConnectedPeers s)"
  shows "(\<forall>c' p. p \<in> set (lobbyConnectedPeers s')
                  \<and> p \<notin> set (lobbyConnectedPeers (leader_step (HostClose c') s'))
            \<longrightarrow> map_of (lobbyPeerConnections s') p = Some c')
       \<and> lobbyConnectedPeers (leader_step (HostClose conn) s) = remove1 pid (lobbyConnectedPeers s)
       \<and> pid \<notin> set (lobbyConnectedPeers (leader_step (HostClose conn) s))
       \<and> \<not> lobbyFull (leader_step (HostClose conn) s)
       \<and> lobbyConnectedPeers
            (leader_step (HostData conn2 (JoinHost q)) (leader_step (HostClose conn) s))
           = remove1 pid (lobbyConnectedPeers s) @ [q]
       \<and> length (lobbyConnectedPeers
            (leader_step (HostData conn2 (JoinHost q)) (leader_step (HostClose conn) s)))
           = lobbySize s
       \<and> lobbyFull (leader_step (HostData conn2 (JoinHost q)) (leader_step (HostClose conn) s))"
proof -
  note [simp del] = leader_step.simps
  have only_if: "\<forall>c' p. p \<in> set (lobbyConnectedPeers s')
                  \<and> p \<notin> set (lobbyConnectedPeers (leader_step (HostClose c') s'))
            \<longrightarrow> map_of (lobbyPeerConnections s') p = Some c'"
  proof (intro allI impI)
    fix c' p
    assume a: "p \<in> set (lobbyConnectedPeers s')
       \<and> p \<notin> set (lobbyConnectedPeers (leader_step (HostClose c') s'))"
    let ?s = "s'\<lparr>openConns := openConns s' - {c'}\<rparr>"
    from on_close_roster[of c' ?s] a show "map_of (lobbyPeerConnections s') p = Some c'"
      by (auto simp: leader_step.simps) (metis in_set_remove1)
  qed
  let ?s0 = "s\<lparr>openConns := openConns s - {conn}\<rparr>"
  have f: "find (\<lambda>(p, c). c = conn) (lobbyPeerConnections ?s0) = Some (pid, conn)"
    using find_only[OF tracked only] by simp
  have cl: "leader_step (HostClose conn) s
      = ?s0\<lparr>lobbyConnectedPeers := remove1 pid (lobbyConnectedPeers s),
            lobbyPeerConnections := AList.delete pid (lobbyPeerConnections s),
            lobbyFull := False\<rparr>"
    using f tracked nonempty by (simp add: on_close_def leader_step.simps)
  have r1: "lobbyConnectedPeers (leader_step (HostClose conn) s) = remove1 pid (lobbyConnectedPeers s)"
    by (simp add: cl)
  have r2: "pid \<notin> set (lobbyConnectedPeers (leader_step (HostClose conn) s))"
    using roster by (simp add: r1)
  have r3: "\<not> lobbyFull (leader_step (HostClose conn) s)"
    by (simp add: cl)
  have qn: "q \<notin> set (remove1 pid (lobbyConnectedPeers s))"
    using newcomer by (meson notin_set_remove1)
  have len: "length (remove1 pid (lobbyConnectedPeers s)) + 1 = lobbySize s"
    using roster full
    by (simp add: length_remove1) (metis One_nat_def Suc_pred length_pos_if_in_set)
  let ?j = "leader_step (HostData conn2 (JoinHost q)) (leader_step (HostClose conn) s)"
  have sz: "lobbySize (leader_step (HostClose conn) s) = lobbySize s"
    by (simp add: cl)
  have j: "lobbyConnectedPeers ?j = remove1 pid (lobbyConnectedPeers s) @ [q] \<and> lobbyFull ?j"
    using join_host_newcomer[of q "leader_step (HostClose conn) s" conn2] qn len
    unfolding r1 sz by simp
  have j2: "length (lobbyConnectedPeers ?j) = lobbySize s"
    using j len by simp
  from only_if r1 r2 r3 j j2 show ?thesis
    by blast
qed

lemma lobby2_fields:
  "lobbyConnectedPeers lobby2 = [''A'', ''B'']"
  "lobbyPeerConnections lobby2 = [(''B'', 1)]"
  "lobbyFull lobby2"
  "lobbySize lobby2 = 2"
  by (simp_all add: lobby2_def leader_defs)

text \<open>
  The run of C6 with capacity \<open>2\<close>: roster \<open>[A, B]\<close> full, the connection of \<open>B\<close> closes,
  then \<open>C\<close> joins.
\<close>

theorem close_evicts_only_tracked_connection_witness:
  "lobbyConnectedPeers lobby2 = [''A'', ''B''] \<and> lobbyFull lobby2
   \<and> lobbyConnectedPeers (leader_step (HostClose 1) lobby2) = [''A'']
   \<and> \<not> lobbyFull (leader_step (HostClose 1) lobby2)
   \<and> lobbyConnectedPeers
        (leader_step (HostData 2 (JoinHost ''C'')) (leader_step (HostClose 1) lobby2))
       = [''A'', ''C'']
   \<and> lobbyFull (leader_step (HostData 2 (JoinHost ''C'')) (leader_step (HostClose 1) lobby2))"
proof -
  note [simp del] = leader_step.simps
  have h1: "map_of (lobbyPeerConnections lobby2) ''B'' = Some 1"
    by (simp add: lobby2_fields)
  have h2: "\<forall>p c. (p, c) \<in> set (lobbyPeerConnections lobby2) \<and> c = 1 \<longrightarrow> p = ''B''"
    by (simp add: lobby2_fields)
  have h3: "''B'' \<noteq> []" by simp
  have h4: "distinct (lobbyConnectedPeers lobby2)" "''B'' \<in> set (lobbyConnectedPeers lobby2)"
    by (simp_all add: lobby2_fields)
  have h5: "lobbyFull lobby2" "length (lobbyConnectedPeers lobby2) = lobbySize lobby2"
    by (simp_all add: lobby2_fields)
  have h6: "''C'' \<notin> set (lobbyConnectedPeers lobby2)"
    by (simp add: lobby2_fields)
  from close_evicts_only_tracked_connection[OF h1 h2 h3 h4 h5 h6, of lobby2 2]
  show ?thesis
    by (simp add: lobby2_fields)
qed

section \<open>The relay\<close>

lemma fold_send_outbox:
  "outbox (fold (\<lambda>(peerId, c) s'. send c p s') xs s) = outbox s @ map (\<lambda>(peerId, c). (c, p)) xs"
  by (induction xs arbitrary: s) (auto simp: send_def)

lemma fold_send_keeps:
  "lobbyConnectedPeers (fold (\<lambda>(peerId, c) s'. send c p s') xs s) = lobbyConnectedPeers s"
  "lobbyPeerConnections (fold (\<lambda>(peerId, c) s'. send c p s') xs s) = lobbyPeerConnections s"
  "lobbyFull (fold (\<lambda>(peerId, c) s'. send c p s') xs s) = lobbyFull s"
  "networkData (fold (\<lambda>(peerId, c) s'. send c p s') xs s) = networkData s"
  by (induction xs arbitrary: s) (auto simp: send_def)

lemma on_relay_outbox:
  "outbox (on_relay sender p s) = outbox s @ map (\<lambda>(peerId, c). (c, p)) (relay_targets s sender)"
  by (simp add: on_relay_def Let_def fold_send_outbox)

lemma on_relay_keeps:
  "lobbyConnectedPeers (on_relay sender p s) = lobbyConnectedPeers s"
  "lobbyPeerConnections (on_relay sender p s) = lobbyPeerConnections s"
  "lobbyFull (on_relay sender p s) = lobbyFull s"
  "networkData (on_relay sender p s) = networkData s @ [p]"
  by (simp_all add: on_relay_def Let_def fold_send_keeps)

text \<open>
  C7: a \<open>message\<close> or \<open>player_state\<close> packet whose \<open>peerId\<close> is \<open>sender\<close> arrives on the
  connection \<open>conn\<close> of that member (the connection is tracked under no other identity).
  The packets the leader sends in this step are exactly one copy on every tracked open
  connection whose identity differs from \<open>sender\<close>; nothing is sent on \<open>conn\<close>; the
  packet is posted to the leader's own main thread, and roster and connections stay as
  they are.
\<close>

theorem relay_reaches_all_but_sender:
  assumes pkt: "p = Message sender payload \<or> p = PlayerState sender payload"
      and member: "\<forall>pid c. (pid, c) \<in> set (lobbyPeerConnections s) \<and> c = conn \<longrightarrow> pid = sender"
  shows "take (length (outbox s)) (outbox (leader_step (HostData conn p) s)) = outbox s
       \<and> set (drop (length (outbox s)) (outbox (leader_step (HostData conn p) s)))
           = {(c, p) | pid c. (pid, c) \<in> set (lobbyPeerConnections s) \<and> pid \<noteq> sender
                              \<and> c \<in> openConns s}
       \<and> (\<forall>q. (conn, q) \<notin> set (drop (length (outbox s)) (outbox (leader_step (HostData conn p) s))))
       \<and> networkData (leader_step (HostData conn p) s) = networkData s @ [p]
       \<and> lobbyConnectedPeers (leader_step (HostData conn p) s) = lobbyConnectedPeers s
       \<and> lobbyPeerConnections (leader_step (HostData conn p) s) = lobbyPeerConnections s"
proof -
  let ?s0 = "s\<lparr>openConns := insert conn (openConns s)\<rparr>"
  have step: "leader_step (HostData conn p) s = on_relay sender p ?s0"
    using pkt by (auto simp: on_data_def)
  have ob: "outbox (leader_step (HostData conn p) s)
      = outbox s @ map (\<lambda>(peerId, c). (c, p)) (relay_targets ?s0 sender)"
    unfolding step by (simp add: on_relay_outbox)
  have tg: "set (relay_targets ?s0 sender)
      = {(pid, c). (pid, c) \<in> set (lobbyPeerConnections s) \<and> pid \<noteq> sender \<and> c \<in> openConns s}"
    using member by (auto simp: relay_targets_def)
  have sent: "set (map (\<lambda>(peerId, c). (c, p)) (relay_targets ?s0 sender))
      = {(c, p) | pid c. (pid, c) \<in> set (lobbyPeerConnections s) \<and> pid \<noteq> sender
                         \<and> c \<in> openConns s}"
    unfolding set_map tg by force
  have noecho: "\<forall>q. (conn, q) \<notin> set (map (\<lambda>(peerId, c). (c, p)) (relay_targets ?s0 sender))"
    unfolding sent using member by blast
  show ?thesis
    unfolding ob using sent noecho unfolding step by (simp add: on_relay_keeps)
qed

lemma lobby3_fields:
  "lobbyPeerConnections lobby3 = [(''B'', 1), (''C'', 2)]"
  "openConns lobby3 = {1, 2}"
  "length (outbox lobby3) = 3"
  by (auto simp: lobby3_def leader_defs)

text \<open>A \<open>player_state\<close> packet of \<open>B\<close> in a lobby of \<open>A\<close>, \<open>B\<close> and \<open>C\<close> goes to \<open>C\<close> only.\<close>

theorem relay_reaches_all_but_sender_witness:
  "set (drop (length (outbox lobby3))
          (outbox (leader_step (HostData 1 (PlayerState ''B'' ''pos'')) lobby3)))
     = {(2, PlayerState ''B'' ''pos'')}
   \<and> (1, PlayerState ''B'' ''pos'')
       \<notin> set (drop (length (outbox lobby3))
                (outbox (leader_step (HostData 1 (PlayerState ''B'' ''pos'')) lobby3)))"
proof -
  have m: "\<forall>pid c. (pid, c) \<in> set (lobbyPeerConnections lobby3) \<and> c = 1 \<longrightarrow> pid = ''B''"
    by (simp add: lobby3_fields)
  have e: "{(c, PlayerState ''B'' ''pos'') | pid c.
             (pid, c) \<in> set (lobbyPeerConnections lobby3) \<and> pid \<noteq> ''B'' \<and> c \<in> openConns lobby3}
      = {(2, PlayerState ''B'' ''pos'')}"
    by (auto simp: lobby3_fields)
  from relay_reaches_all_but_sender
         [of "PlayerState ''B'' ''pos''" "''B''" "''pos''" lobby3 1, OF _ m]
  show ?thesis
    unfolding e by blast
qed

section \<open>Loops that may throw\<close>

lemma fold_err_inv:
  assumes "\<And>x s s'. f x s = Inr s' \<Longrightarrow> P s \<Longrightarrow> P s'"
  shows "fold_err f xs s = Inr s' \<Longrightarrow> P s \<Longrightarrow> P s'"
proof (induction xs arbitrary: s)
  case Nil
  then show ?case by simp
next
  case (Cons x xs)
  then show ?case
    by (auto split: sum.splits dest: assms)
qed

lemma fold_err_total:
  assumes "\<And>x s. x \<in> set xs \<Longrightarrow> P s \<Longrightarrow> \<exists>s'. f x s = Inr s' \<and> P s'"
      and "P s"
  shows "\<exists>s'. fold_err f xs s = Inr s' \<and> P s'"
  using assms
proof (induction xs arbitrary: s)
  case Nil
  then show ?case by simp
next
  case (Cons x xs)
  from Cons.prems(1)[of x s] Cons.prems(2) obtain s1 where s1: "f x s = Inr s1" "P s1"
    by auto
  have "\<exists>s'. fold_err f xs s1 = Inr s' \<and> P s'"
    by (rule Cons.IH) (use Cons.prems(1) s1 in auto)
  with s1 show ?case by simp
qed

lemma fold_err_append:
  "fold_err f (xs @ ys) s = (case fold_err f xs s of Inl e \<Rightarrow> Inl e | Inr s' \<Rightarrow> fold_err f ys s')"
  by (induction xs arbitrary: s) (auto split: sum.splits)

lemma map_err_all2:
  "map_err f xs = Inr ys \<Longrightarrow> list_all2 (\<lambda>x y. f x = Inr y) xs ys"
proof (induction xs arbitrary: ys)
  case Nil
  then show ?case by simp
next
  case (Cons x xs)
  then show ?case by (auto split: sum.splits)
qed

lemma map_err_total:
  assumes "\<And>x. x \<in> set xs \<Longrightarrow> \<exists>y. f x = Inr y"
  shows "\<exists>ys. map_err f xs = Inr ys"
  using assms
proof (induction xs)
  case Nil
  then show ?case by simp
next
  case (Cons x xs)
  then obtain y ys where "f x = Inr y" "map_err f xs = Inr ys"
    by (metis list.set_intros(1) list.set_intros(2))
  then show ?case by simp
qed

lemma map_err_throws:
  assumes "x \<in> set xs" and "f x = Inl e"
      and "\<And>y. y \<in> set xs \<Longrightarrow> (\<exists>z. f y = Inr z) \<or> f y = Inl e"
  shows "map_err f xs = Inl e"
  using assms
proof (induction xs)
  case Nil
  then show ?case by simp
next
  case (Cons a xs)
  show ?case
  proof (cases "f a")
    case (Inl e')
    with Cons.prems(3)[of a] show ?thesis by simp
  next
    case (Inr z)
    with Cons.prems(1,2) have "x \<in> set xs" by auto
    then have "map_err f xs = Inl e"
      by (rule Cons.IH) (use Cons.prems in auto)
    with Inr show ?thesis by simp
  qed
qed

lemma all2_set_right:
  "list_all2 R xs ys \<Longrightarrow> y \<in> set ys \<Longrightarrow> \<exists>x \<in> set xs. R x y"
  by (induction rule: list_all2_induct) auto

lemma all2_set_left:
  "list_all2 R xs ys \<Longrightarrow> x \<in> set xs \<Longrightarrow> \<exists>y \<in> set ys. R x y"
  by (induction rule: list_all2_induct) auto

lemma all2_keys:
  "list_all2 R xs ys \<Longrightarrow> (\<And>x y. R x y \<Longrightarrow> fst y = fst x) \<Longrightarrow> map fst ys = map fst xs"
  by (induction rule: list_all2_induct) auto

section \<open>Chunk creation\<close>

lemma concat_triples_length:
  "length (concat (map (\<lambda>v. [a v, b v, c v]) vs)) = 3 * length vs"
  by (induction vs) auto

lemma height_entries_triples_aux:
  "m mod 3 = 0 \<Longrightarrow>
   map snd (filter (\<lambda>(index, v). index mod 3 = 1) (enumerate m (concat (map (\<lambda>v. [a v, b v, c v]) vs))))
     = map b vs"
proof (induction vs arbitrary: m)
  case Nil
  then show ?case by simp
next
  case (Cons v vs)
  from Cons.prems have "Suc (Suc (Suc m)) mod 3 = 0"
    by (simp add: mod_Suc)
  from Cons.IH[OF this] Cons.prems show ?case
    by (simp add: mod_Suc)
qed

lemma height_entries_triples:
  "height_entries (concat (map (\<lambda>v. [a v, b v, c v]) vs)) = map b vs"
  using height_entries_triples_aux[of 0 a b c vs] by (simp add: height_entries_def)

lemma concat_nested:
  "concat (map (\<lambda>z. concat (map (g z) xs)) zs) = concat (map (\<lambda>(z, x). g z x) (List.product zs xs))"
  by (induction zs) (auto simp: map_concat comp_def)

lemma chunk_vertices_triples:
  "chunk_vertices H t cX cZ
     = concat (map (\<lambda>(z, x). [vertex_coord t cX x, H (terrainSeed t) (vertex_coord t cX x) (vertex_coord t cZ z),
                               vertex_coord t cZ z])
         (List.product [0..<Suc (chunkResolution t)] [0..<Suc (chunkResolution t)]))"
  unfolding chunk_vertices_def Let_def by (rule concat_nested)

lemma chunk_vertices_triples':
  "chunk_vertices H t cX cZ
     = concat (map (\<lambda>v. [vertex_coord t cX (snd v),
                          H (terrainSeed t) (vertex_coord t cX (snd v)) (vertex_coord t cZ (fst v)),
                          vertex_coord t cZ (fst v)])
         (List.product [0..<Suc (chunkResolution t)] [0..<Suc (chunkResolution t)]))"
  unfolding chunk_vertices_triples case_prod_beta by (rule refl)

lemma chunk_vertices_length:
  "length (chunk_vertices H t cX cZ) = 3 * (chunkResolution t + 1)\<^sup>2"
  unfolding chunk_vertices_triples' concat_triples_length by (simp add: power2_eq_square)

lemma chunk_heights:
  "height_entries (chunk_vertices H t cX cZ)
     = map (\<lambda>v. H (terrainSeed t) (vertex_coord t cX (snd v)) (vertex_coord t cZ (fst v)))
         (List.product [0..<Suc (chunkResolution t)] [0..<Suc (chunkResolution t)])"
  unfolding chunk_vertices_triples' by (rule height_entries_triples)

lemma chunk_heights_length:
  "length (height_entries (chunk_vertices H t cX cZ)) = (chunkResolution t + 1)\<^sup>2"
  unfolding chunk_heights by (simp add: power2_eq_square)

lemma createTerrainChunk_built:
  assumes "\<not> no_seed (terrainSeed t)" "0 < chunkResolution t"
  shows "\<exists>c. createTerrainChunk H t cX cZ = Inr c \<and> chunk_built t c"
  using assms
  by (simp add: createTerrainChunk_def Let_def chunk_built_def chunk_heights_length chunk_vertices_length)

lemma createTerrainChunk_shaped:
  "createTerrainChunk H t cX cZ = Inr c \<Longrightarrow> chunk_shaped c"
  by (auto simp: createTerrainChunk_def Let_def chunk_shaped_def chunk_heights_length chunk_vertices_length
      split: if_splits)

lemma createTerrainChunk_no_seed:
  "no_seed (terrainSeed t) \<Longrightarrow> createTerrainChunk H t cX cZ
     = Inr \<lparr>mesh = None, chunkX = cX, chunkZ = cZ, originalHeights = []\<rparr>"
  by (simp add: createTerrainChunk_def)

section \<open>The cached key set\<close>

lemma sqrt_scaled_le:
  assumes "0 \<le> x" "0 < c" "0 \<le> r"
  shows "sqrt x * c \<le> r \<longleftrightarrow> x * c\<^sup>2 \<le> r\<^sup>2"
proof -
  have "sqrt x * c = sqrt (x * c\<^sup>2)"
    using assms by (simp add: real_sqrt_mult)
  moreover have "sqrt (x * c\<^sup>2) \<le> r \<longleftrightarrow> x * c\<^sup>2 \<le> r\<^sup>2"
    using assms by (metis real_sqrt_le_iff real_sqrt_abs abs_of_nonneg)
  ultimately show ?thesis by simp
qed

lemma int_sq_le_2:
  fixes a b :: int
  shows "a * a + b * b \<le> 2 \<longleftrightarrow> (a \<in> {-1, 0, 1} \<and> b \<in> {-1, 0, 1})"
proof
  assume h: "a * a + b * b \<le> 2"
  have sq: "\<And>x::int. x * x \<le> 2 \<Longrightarrow> x \<in> {-1, 0, 1}"
  proof -
    fix x :: int
    assume x: "x * x \<le> 2"
    have "\<bar>x\<bar> < 2"
    proof (rule ccontr)
      assume "\<not> \<bar>x\<bar> < 2"
      then have "2 \<le> \<bar>x\<bar>" by simp
      then have "2 * 2 \<le> \<bar>x\<bar> * \<bar>x\<bar>" by (intro mult_mono) simp_all
      then have "4 \<le> x * x" by (simp add: abs_mult_self_eq)
      with x show False by simp
    qed
    then show "x \<in> {-1, 0, 1}" by auto
  qed
  have "0 \<le> a * a" "0 \<le> b * b" by simp_all
  with h have "a * a \<le> 2" "b * b \<le> 2" by linarith+
  then show "a \<in> {-1, 0, 1} \<and> b \<in> {-1, 0, 1}" using sq by blast
next
  assume "a \<in> {-1, 0, 1} \<and> b \<in> {-1, 0, 1}"
  then show "a * a + b * b \<le> 2" by auto
qed

lemma map_err_keys:
  assumes "\<And>x y. f x = Inr y \<Longrightarrow> fst y = fst x"
  shows "map_err f xs = Inr ys \<Longrightarrow> map fst ys = map fst xs"
proof (induction xs arbitrary: ys)
  case Nil
  then show ?case by simp
next
  case (Cons x xs)
  then show ?case
    by (auto split: sum.splits dest: assms)
qed

lemma create_missing_keys:
  "create_missing H t ks chunks = Inr chunks'
    \<Longrightarrow> fst ` set chunks' = fst ` set chunks \<union> set ks"
proof (induction ks arbitrary: chunks)
  case Nil
  then show ?case by simp
next
  case (Cons k ks)
  show ?case
  proof (cases "k \<in> set (map fst chunks)")
    case True
    with Cons show ?thesis by auto
  next
    case False
    with Cons.prems obtain c where c: "createTerrainChunk H t (fst k) (snd k) = Inr c"
      and r: "create_missing H t ks (AList.update k c chunks) = Inr chunks'"
      by (auto split: sum.splits)
    from Cons.IH[OF r] show ?thesis
      by (auto simp: dom_update)
  qed
qed

lemma chunksToRemove_eq:
  "chunksToRemove req chunks = Inr ks \<Longrightarrow> ks = filter (\<lambda>k. k \<notin> set req) (map fst chunks)"
proof (induction chunks arbitrary: ks)
  case Nil
  then show ?case by simp
next
  case (Cons kc chunks)
  obtain k c where kc: "kc = (k, c)" by (cases kc)
  from Cons show ?case
    unfolding kc by (auto split: if_splits option.splits sum.splits)
qed

lemma fold_delete_keys:
  "fst ` set (fold AList.delete ks chunks) = fst ` set chunks - set ks"
proof (induction ks arbitrary: chunks)
  case Nil
  then show ?case by simp
next
  case (Cons k ks)
  have "fst ` set (AList.delete k chunks) = fst ` set chunks - {k}"
    by (auto simp: AList.delete_eq image_iff)
  with Cons show ?case by auto
qed

lemma updateTerrainChunks_keys:
  assumes "updateTerrainChunks H p t = Inr t'"
  shows "fst ` set (terrainChunks t') = set (requiredChunks t p)"
proof -
  from assms obtain chunks ks where
    c: "create_missing H t (requiredChunks t p) (terrainChunks t) = Inr chunks"
    and r: "chunksToRemove (requiredChunks t p) chunks = Inr ks"
    and t': "t' = t\<lparr>terrainChunks := fold AList.delete ks chunks\<rparr>"
    by (auto simp: updateTerrainChunks_def Let_def split: if_splits sum.splits)
  have "fst ` set (terrainChunks t') = (fst ` set (terrainChunks t) \<union> set (requiredChunks t p)) - set ks"
    by (simp add: t' fold_delete_keys create_missing_keys[OF c])
  also have "\<dots> = set (requiredChunks t p)"
    using chunksToRemove_eq[OF r] create_missing_keys[OF c] by auto
  finally show ?thesis .
qed


lemma abs_le_sqrt_sum:
  "\<bar>real_of_int dx\<bar> \<le> sqrt (of_int (dx * dx + dz * dz))"
proof -
  have "\<bar>real_of_int dx\<bar> = sqrt ((real_of_int dx)\<^sup>2)" by simp
  also have "\<dots> \<le> sqrt ((real_of_int dx)\<^sup>2 + (real_of_int dz)\<^sup>2)"
    by (rule real_sqrt_le_mono) simp
  also have "(real_of_int dx)\<^sup>2 + (real_of_int dz)\<^sup>2 = of_int (dx * dx + dz * dz)"
    by (simp add: power2_eq_square)
  finally show ?thesis .
qed

lemma offset_in_radius:
  assumes cs: "0 < cs" and d: "sqrt (of_int (dx * dx + dz * dz)) * cs \<le> rd"
  shows "- \<lceil>rd / cs\<rceil> \<le> dx \<and> dx \<le> \<lceil>rd / cs\<rceil>"
proof -
  have "\<bar>real_of_int dx\<bar> * cs \<le> sqrt (of_int (dx * dx + dz * dz)) * cs"
    using abs_le_sqrt_sum[of dx dz] cs by (simp add: mult_right_mono)
  with d have "\<bar>real_of_int dx\<bar> * cs \<le> rd" by linarith
  with cs have "\<bar>real_of_int dx\<bar> \<le> rd / cs" by (simp add: pos_le_divide_eq)
  also have "\<dots> \<le> of_int \<lceil>rd / cs\<rceil>" by (rule le_of_int_ceiling)
  finally have "\<bar>real_of_int dx\<bar> \<le> of_int \<lceil>rd / cs\<rceil>" .
  then have "\<bar>dx\<bar> \<le> \<lceil>rd / cs\<rceil>"
    by (metis of_int_abs of_int_le_iff)
  then show ?thesis by linarith
qed

lemma required_offsets_set:
  assumes "0 < chunkSize t"
  shows "set (required_offsets t)
     = {(dx, dz). sqrt (of_int (dx * dx + dz * dz)) * chunkSize t \<le> renderDistance t}"
proof -
  have "\<And>dx dz. sqrt (of_int (dx * dx + dz * dz)) * chunkSize t \<le> renderDistance t
     \<Longrightarrow> - \<lceil>renderDistance t / chunkSize t\<rceil> \<le> dx \<and> dx \<le> \<lceil>renderDistance t / chunkSize t\<rceil>
       \<and> - \<lceil>renderDistance t / chunkSize t\<rceil> \<le> dz \<and> dz \<le> \<lceil>renderDistance t / chunkSize t\<rceil>"
    using offset_in_radius[OF assms, of _ _ "renderDistance t"]
    by (metis add.commute)
  then show ?thesis
    unfolding required_offsets_def Let_def by auto
qed

lemma euclid_center_snapped:
  assumes "0 < chunkSize t"
  shows "euclid (chunk_center t k) (snapped t p)
     = sqrt (of_int ((fst k - \<lfloor>fst p / chunkSize t\<rfloor>) * (fst k - \<lfloor>fst p / chunkSize t\<rfloor>)
                    + (snd k - \<lfloor>snd p / chunkSize t\<rfloor>) * (snd k - \<lfloor>snd p / chunkSize t\<rfloor>)))
       * chunkSize t"
proof -
  let ?a = "real_of_int (fst k - \<lfloor>fst p / chunkSize t\<rfloor>)"
  let ?b = "real_of_int (snd k - \<lfloor>snd p / chunkSize t\<rfloor>)"
  have "euclid (chunk_center t k) (snapped t p) = sqrt ((?a * chunkSize t)\<^sup>2 + (?b * chunkSize t)\<^sup>2)"
    by (simp add: euclid_def chunk_center_def snapped_def algebra_simps)
  also have "(?a * chunkSize t)\<^sup>2 + (?b * chunkSize t)\<^sup>2 = (?a * ?a + ?b * ?b) * (chunkSize t)\<^sup>2"
    by (simp add: power2_eq_square algebra_simps)
  also have "sqrt \<dots> = sqrt (?a * ?a + ?b * ?b) * chunkSize t"
    using assms by (simp add: real_sqrt_mult)
  finally show ?thesis by simp
qed

lemma requiredChunks_set:
  assumes "0 < chunkSize t"
  shows "set (requiredChunks t p)
     = {k. euclid (chunk_center t k) (snapped t p) \<le> renderDistance t}"
proof -
  let ?px = "\<lfloor>fst p / chunkSize t\<rfloor>" and ?pz = "\<lfloor>snd p / chunkSize t\<rfloor>"
  have "set (requiredChunks t p) = (\<lambda>(dx, dz). (?px + dx, ?pz + dz)) ` set (required_offsets t)"
    by (simp add: requiredChunks_def Let_def)
  also have "\<dots> = {k. sqrt (of_int ((fst k - ?px) * (fst k - ?px) + (snd k - ?pz) * (snd k - ?pz)))
                        * chunkSize t \<le> renderDistance t}"
    unfolding required_offsets_set[OF assms]
  proof (intro set_eqI iffI)
    fix k
    assume "k \<in> (\<lambda>(dx, dz). (?px + dx, ?pz + dz))
        ` {(dx, dz). sqrt (of_int (dx * dx + dz * dz)) * chunkSize t \<le> renderDistance t}"
    then show "k \<in> {k. sqrt (of_int ((fst k - ?px) * (fst k - ?px) + (snd k - ?pz) * (snd k - ?pz)))
                        * chunkSize t \<le> renderDistance t}"
      by auto
  next
    fix k
    assume a: "k \<in> {k. sqrt (of_int ((fst k - ?px) * (fst k - ?px) + (snd k - ?pz) * (snd k - ?pz)))
                        * chunkSize t \<le> renderDistance t}"
    have "k = (\<lambda>(dx, dz). (?px + dx, ?pz + dz)) (fst k - ?px, snd k - ?pz)"
      by simp
    moreover have "(fst k - ?px, snd k - ?pz)
        \<in> {(dx, dz). sqrt (of_int (dx * dx + dz * dz)) * chunkSize t \<le> renderDistance t}"
      using a by simp
    ultimately show "k \<in> (\<lambda>(dx, dz). (?px + dx, ?pz + dz))
        ` {(dx, dz). sqrt (of_int (dx * dx + dz * dz)) * chunkSize t \<le> renderDistance t}"
      by (rule image_eqI)
  qed
  finally show ?thesis
    by (simp add: euclid_center_snapped[OF assms])
qed

section \<open>Creation and eviction in updateTerrainChunks\<close>

lemma update_fresh: "k \<notin> fst ` set al \<Longrightarrow> AList.update k v al = al @ [(k, v)]"
  by (induction al) auto

lemma set_fold_delete:
  "set (fold AList.delete ks al) = {kc \<in> set al. fst kc \<notin> set ks}"
proof (induction ks arbitrary: al)
  case Nil
  then show ?case by simp
next
  case (Cons k ks)
  have "set (fold AList.delete (k # ks) al) = {kc \<in> set (AList.delete k al). fst kc \<notin> set ks}"
    using Cons.IH[of "AList.delete k al"] by simp
  also have "\<dots> = {kc \<in> set al. fst kc \<notin> set (k # ks)}"
    by (auto simp: AList.delete_eq)
  finally show ?case .
qed

lemma create_missing_superset:
  "create_missing H t ks chunks = Inr chunks' \<Longrightarrow> set chunks \<subseteq> set chunks'"
proof (induction ks arbitrary: chunks)
  case Nil
  then show ?case by simp
next
  case (Cons k ks)
  show ?case
  proof (cases "k \<in> set (map fst chunks)")
    case True
    with Cons show ?thesis by auto
  next
    case False
    with Cons.prems obtain c where c: "createTerrainChunk H t (fst k) (snd k) = Inr c"
      and r: "create_missing H t ks (AList.update k c chunks) = Inr chunks'"
      by (auto split: sum.splits)
    from False have "AList.update k c chunks = chunks @ [(k, c)]"
      by (simp add: update_fresh)
    with Cons.IH[OF r] show ?thesis by auto
  qed
qed

lemma create_missing_new:
  assumes "create_missing H t ks chunks = Inr chunks'" and "kc \<in> set chunks'" and "kc \<notin> set chunks"
  shows "createTerrainChunk H t (fst (fst kc)) (snd (fst kc)) = Inr (snd kc) \<and> fst kc \<in> set ks"
  using assms
proof (induction ks arbitrary: chunks)
  case Nil
  then show ?case by simp
next
  case (Cons k ks)
  show ?case
  proof (cases "k \<in> set (map fst chunks)")
    case True
    with Cons show ?thesis by auto
  next
    case False
    with Cons.prems obtain c where c: "createTerrainChunk H t (fst k) (snd k) = Inr c"
      and r: "create_missing H t ks (AList.update k c chunks) = Inr chunks'"
      by (auto split: sum.splits)
    from False have u: "AList.update k c chunks = chunks @ [(k, c)]"
      by (simp add: update_fresh)
    show ?thesis
    proof (cases "kc = (k, c)")
      case True
      with c show ?thesis by simp
    next
      case False
      with Cons.prems(3) u have "kc \<notin> set (AList.update k c chunks)" by simp
      from Cons.IH[OF r Cons.prems(2) this] show ?thesis by simp
    qed
  qed
qed

lemma create_missing_stores:
  assumes "create_missing H t ks chunks = Inr chunks'" and "k \<in> set ks" and "k \<notin> fst ` set chunks"
  shows "\<exists>c. createTerrainChunk H t (fst k) (snd k) = Inr c \<and> (k, c) \<in> set chunks'"
proof -
  from create_missing_keys[OF assms(1)] assms(2) have "k \<in> fst ` set chunks'" by auto
  then obtain c where kc: "(k, c) \<in> set chunks'" by force
  with assms(3) have "(k, c) \<notin> set chunks" by force
  from create_missing_new[OF assms(1) kc this] kc show ?thesis by auto
qed

lemma create_missing_total:
  assumes "no_seed (terrainSeed t) \<or> 0 < chunkResolution t"
  shows "\<exists>chunks'. create_missing H t ks chunks = Inr chunks'"
proof (induction ks arbitrary: chunks)
  case Nil
  then show ?case by simp
next
  case (Cons k ks)
  from assms have "\<exists>c. createTerrainChunk H t (fst k) (snd k) = Inr c"
    by (cases "no_seed (terrainSeed t)") (simp_all add: createTerrainChunk_def Let_def)
  then obtain c where "createTerrainChunk H t (fst k) (snd k) = Inr c" ..
  with Cons show ?case by simp
qed

lemma chunksToRemove_total:
  "\<forall>kc \<in> set chunks. fst kc \<notin> set req \<longrightarrow> mesh (snd kc) \<noteq> None
     \<Longrightarrow> \<exists>ks. chunksToRemove req chunks = Inr ks"
proof (induction chunks)
  case Nil
  then show ?case by simp
next
  case (Cons kc chunks)
  obtain k c where kc: "kc = (k, c)" by (cases kc)
  from Cons show ?case
    unfolding kc by (auto split: option.splits)
qed

lemma chunksToRemove_fails:
  "(k, c) \<in> set chunks \<Longrightarrow> k \<notin> set req \<Longrightarrow> mesh c = None
     \<Longrightarrow> chunksToRemove req chunks = Inl TypeError"
proof (induction chunks)
  case Nil
  then show ?case by simp
next
  case (Cons kc chunks)
  obtain k' c' where kc: "kc = (k', c')" by (cases kc)
  show ?case
  proof (cases "(k, c) = (k', c')")
    case True
    with Cons.prems show ?thesis unfolding kc by simp
  next
    case False
    with Cons.prems have "(k, c) \<in> set chunks" unfolding kc by auto
    from Cons.IH[OF this Cons.prems(2,3)] show ?thesis
      unfolding kc by (simp split: option.splits)
  qed
qed


lemma updateTerrainChunks_result:
  assumes "updateTerrainChunks H p t = Inr t'"
  shows "\<exists>chunks kept. create_missing H t (requiredChunks t p) (terrainChunks t) = Inr chunks
           \<and> set kept = {kc \<in> set chunks. fst kc \<in> set (requiredChunks t p)}
           \<and> t' = t\<lparr>terrainChunks := kept\<rparr>"
proof -
  from assms obtain chunks ks where
    c: "create_missing H t (requiredChunks t p) (terrainChunks t) = Inr chunks"
    and r: "chunksToRemove (requiredChunks t p) chunks = Inr ks"
    and t': "t' = t\<lparr>terrainChunks := fold AList.delete ks chunks\<rparr>"
    by (auto simp: updateTerrainChunks_def Let_def split: if_splits sum.splits)
  have "set (fold AList.delete ks chunks) = {kc \<in> set chunks. fst kc \<in> set (requiredChunks t p)}"
    using chunksToRemove_eq[OF r] by (auto simp: set_fold_delete)
  with c t' show ?thesis by (intro exI conjI)
qed

lemma updateTerrainChunks_succeeds:
  assumes cs: "chunkSize t \<noteq> 0" and res: "no_seed (terrainSeed t) \<or> 0 < chunkResolution t"
      and ok: "\<And>chunks kc. create_missing H t (requiredChunks t p) (terrainChunks t) = Inr chunks
                 \<Longrightarrow> kc \<in> set chunks \<Longrightarrow> fst kc \<notin> set (requiredChunks t p) \<Longrightarrow> mesh (snd kc) \<noteq> None"
  shows "\<exists>t'. updateTerrainChunks H p t = Inr t'"
proof -
  from create_missing_total[OF res] obtain chunks where
    c: "create_missing H t (requiredChunks t p) (terrainChunks t) = Inr chunks" by blast
  have "\<exists>ks. chunksToRemove (requiredChunks t p) chunks = Inr ks"
    by (rule chunksToRemove_total) (use ok[OF c] in blast)
  then obtain ks where "chunksToRemove (requiredChunks t p) chunks = Inr ks" ..
  with c cs show ?thesis
    by (simp add: updateTerrainChunks_def Let_def)
qed

lemma chunk_built_mesh: "chunk_built t c \<Longrightarrow> mesh c \<noteq> None"
  by (auto simp: chunk_built_def split: option.splits)

lemma chunk_built_cong:
  "chunkResolution t' = chunkResolution t \<Longrightarrow> chunk_built t' c = chunk_built t c"
  by (simp add: chunk_built_def split: option.splits)

lemma updateTerrainChunks_built:
  assumes cs: "chunkSize t \<noteq> 0" and res: "0 < chunkResolution t"
      and seed: "\<not> no_seed (terrainSeed t)"
      and inv: "\<forall>kc \<in> set (terrainChunks t). chunk_built t (snd kc)"
  shows "\<exists>t'. updateTerrainChunks H p t = Inr t' \<and> (\<forall>kc \<in> set (terrainChunks t'). chunk_built t' (snd kc))"
proof -
  have built: "kc \<in> set chunks \<Longrightarrow> chunk_built t (snd kc)"
    if c: "create_missing H t (requiredChunks t p) (terrainChunks t) = Inr chunks" for chunks kc
  proof (cases "kc \<in> set (terrainChunks t)")
    case True
    with inv show ?thesis by blast
  next
    case False
    assume "kc \<in> set chunks"
    from create_missing_new[OF c this False]
    have "createTerrainChunk H t (fst (fst kc)) (snd (fst kc)) = Inr (snd kc)" by simp
    with createTerrainChunk_built[OF seed res, of H "fst (fst kc)" "snd (fst kc)"]
    show ?thesis by simp
  qed
  have "\<exists>t'. updateTerrainChunks H p t = Inr t'"
  proof (rule updateTerrainChunks_succeeds[OF cs])
    show "no_seed (terrainSeed t) \<or> 0 < chunkResolution t" using res by simp
  next
    fix chunks kc
    assume "create_missing H t (requiredChunks t p) (terrainChunks t) = Inr chunks"
      and "kc \<in> set chunks"
    then have "chunk_built t (snd kc)" by (rule built)
    then show "mesh (snd kc) \<noteq> None" by (rule chunk_built_mesh)
  qed
  then obtain t' where t': "updateTerrainChunks H p t = Inr t'" ..
  from updateTerrainChunks_result[OF t'] obtain chunks kept where
    c: "create_missing H t (requiredChunks t p) (terrainChunks t) = Inr chunks"
    and s: "set kept = {kc \<in> set chunks. fst kc \<in> set (requiredChunks t p)}"
    and e: "t' = t\<lparr>terrainChunks := kept\<rparr>"
    by (elim exE conjE)
  have r: "chunkResolution t' = chunkResolution t" and k: "terrainChunks t' = kept"
    by (simp_all add: e)
  have "\<forall>kc \<in> set (terrainChunks t'). chunk_built t' (snd kc)"
    unfolding k chunk_built_cong[OF r] s using built[OF c] by simp
  with t' show ?thesis by (intro exI conjI)
qed

lemma updateTerrainChunks_stores_null:
  assumes cs: "chunkSize t \<noteq> 0" and seed: "no_seed (terrainSeed t)"
      and inv: "\<forall>kc \<in> set (terrainChunks t). mesh (snd kc) \<noteq> None"
      and k: "k \<in> set (requiredChunks t p)" "k \<notin> fst ` set (terrainChunks t)"
  shows "\<exists>t'. updateTerrainChunks H p t = Inr t'
           \<and> (k, \<lparr>mesh = None, chunkX = fst k, chunkZ = snd k, originalHeights = []\<rparr>)
                \<in> set (terrainChunks t')"
proof -
  have old: "kc \<in> set chunks \<Longrightarrow> fst kc \<notin> set (requiredChunks t p) \<Longrightarrow> mesh (snd kc) \<noteq> None"
    if c: "create_missing H t (requiredChunks t p) (terrainChunks t) = Inr chunks" for chunks kc
  proof (cases "kc \<in> set (terrainChunks t)")
    case True
    with inv show ?thesis by blast
  next
    case False
    assume a: "kc \<in> set chunks" "fst kc \<notin> set (requiredChunks t p)"
    from create_missing_new[OF c a(1) False] a(2) show ?thesis by simp
  qed
  have "\<exists>t'. updateTerrainChunks H p t = Inr t'"
  proof (rule updateTerrainChunks_succeeds[OF cs])
    show "no_seed (terrainSeed t) \<or> 0 < chunkResolution t" using seed by simp
  next
    fix chunks kc
    assume "create_missing H t (requiredChunks t p) (terrainChunks t) = Inr chunks"
      and "kc \<in> set chunks" and "fst kc \<notin> set (requiredChunks t p)"
    then show "mesh (snd kc) \<noteq> None" by (rule old)
  qed
  then obtain t' where t': "updateTerrainChunks H p t = Inr t'" ..
  from updateTerrainChunks_result[OF t'] obtain chunks kept where
    c: "create_missing H t (requiredChunks t p) (terrainChunks t) = Inr chunks"
    and s: "set kept = {kc \<in> set chunks. fst kc \<in> set (requiredChunks t p)}"
    and e: "t' = t\<lparr>terrainChunks := kept\<rparr>"
    by (elim exE conjE)
  have kp: "terrainChunks t' = kept"
    by (simp add: e)
  from create_missing_stores[OF c k] createTerrainChunk_no_seed[OF seed, of H "fst k" "snd k"]
  have "(k, \<lparr>mesh = None, chunkX = fst k, chunkZ = snd k, originalHeights = []\<rparr>) \<in> set chunks"
    by auto
  with s k(1) have "(k, \<lparr>mesh = None, chunkX = fst k, chunkZ = snd k, originalHeights = []\<rparr>)
      \<in> set (terrainChunks t')"
    unfolding kp by simp
  with t' show ?thesis by (intro exI conjI)
qed

lemma updateTerrainChunks_null_evicted:
  assumes cs: "chunkSize t \<noteq> 0" and res: "no_seed (terrainSeed t) \<or> 0 < chunkResolution t"
      and kc: "(k, c) \<in> set (terrainChunks t)" "mesh c = None" "k \<notin> set (requiredChunks t p)"
  shows "updateTerrainChunks H p t = Inl TypeError"
proof -
  from create_missing_total[OF res] obtain chunks where
    c: "create_missing H t (requiredChunks t p) (terrainChunks t) = Inr chunks" by blast
  from create_missing_superset[OF c] kc(1) have "(k, c) \<in> set chunks" by blast
  from chunksToRemove_fails[OF this kc(3) kc(2)] c cs show ?thesis
    by (simp add: updateTerrainChunks_def Let_def)
qed

section \<open>Animation, interpolation and the frame update\<close>

lemma animate_vertex_length:
  "animate_vertex t hs i ps = Inr ps' \<Longrightarrow> length ps' = length ps"
  by (auto simp: animate_vertex_def split: if_splits)

lemma animate_vertex_total:
  "i * 3 + 2 < length ps \<Longrightarrow> \<exists>ps'. animate_vertex t hs i ps = Inr ps' \<and> length ps' = length ps"
  by (simp add: animate_vertex_def)

lemma animate_chunk_result:
  assumes "animate_chunk t kc = Inr kc'"
  shows "fst kc' = fst kc \<and> originalHeights (snd kc') = originalHeights (snd kc)
       \<and> (mesh (snd kc') = None \<longleftrightarrow> mesh (snd kc) = None)
       \<and> (\<forall>m m'. mesh (snd kc) = Some m \<and> mesh (snd kc') = Some m'
             \<longrightarrow> length (positions m') = length (positions m))"
proof (cases "mesh (snd kc)")
  case None
  with assms show ?thesis by (simp add: animate_chunk_def)
next
  case (Some m)
  with assms obtain ps where
    f: "fold_err (animate_vertex t (originalHeights (snd kc))) [0..<length (originalHeights (snd kc))] (positions m) = Inr ps"
    and k: "kc' = (fst kc, (snd kc)\<lparr>mesh := Some (m\<lparr>positions := ps\<rparr>)\<rparr>)"
    by (auto simp: animate_chunk_def split: sum.splits)
  have "length ps = length (positions m)"
    by (rule fold_err_inv[where P = "\<lambda>q. length q = length (positions m)", OF _ f])
       (auto dest: animate_vertex_length)
  with Some k show ?thesis by simp
qed

lemma animate_chunk_total:
  assumes "chunk_shaped (snd kc)"
  shows "\<exists>kc'. animate_chunk t kc = Inr kc'"
proof (cases "mesh (snd kc)")
  case None
  then show ?thesis by (simp add: animate_chunk_def)
next
  case (Some m)
  with assms have len: "length (positions m) = 3 * length (originalHeights (snd kc))"
    by (simp add: chunk_shaped_def)
  have "\<exists>ps. fold_err (animate_vertex t (originalHeights (snd kc)))
            [0..<length (originalHeights (snd kc))] (positions m) = Inr ps
          \<and> length ps = length (positions m)"
  proof (rule fold_err_total[where P = "\<lambda>q. length q = length (positions m)"])
    fix i :: nat and q :: "real list"
    assume "i \<in> set [0..<length (originalHeights (snd kc))]" and "length q = length (positions m)"
    with len have "i * 3 + 2 < length q" by simp
    from animate_vertex_total[OF this] \<open>length q = length (positions m)\<close>
    show "\<exists>q'. animate_vertex t (originalHeights (snd kc)) i q = Inr q' \<and> length q' = length (positions m)"
      by auto
  qed simp
  then show ?thesis
    using Some by (auto simp: animate_chunk_def)
qed

lemma chunk_shaped_transfer:
  assumes "chunk_shaped c" "originalHeights c' = originalHeights c"
      and "mesh c' = None \<longleftrightarrow> mesh c = None"
      and "\<forall>m m'. mesh c = Some m \<and> mesh c' = Some m' \<longrightarrow> length (positions m') = length (positions m)"
  shows "chunk_shaped c'"
  using assms by (auto simp: chunk_shaped_def split: option.splits)

lemma chunk_built_transfer:
  assumes "chunk_built t c" "length (originalHeights c') = length (originalHeights c)"
      and "mesh c' = None \<longleftrightarrow> mesh c = None"
      and "\<forall>m m'. mesh c = Some m \<and> mesh c' = Some m' \<longrightarrow> length (positions m') = length (positions m)"
  shows "chunk_built t c'"
  using assms by (auto simp: chunk_built_def split: option.splits)

lemma chunk_built_shaped: "chunk_built t c \<Longrightarrow> chunk_shaped c"
  by (auto simp: chunk_built_def chunk_shaped_def split: option.splits)

lemma animateTerrainChunks_result:
  assumes "animateTerrainChunks t = Inr t'"
  shows "\<exists>chunks. t' = t\<lparr>terrainChunks := chunks\<rparr>
          \<and> list_all2 (\<lambda>kc kc'. animate_chunk t kc = Inr kc') (terrainChunks t) chunks"
  using assms map_err_all2[of "animate_chunk t" "terrainChunks t"]
  by (auto simp: animateTerrainChunks_def split: sum.splits)

lemma animateTerrainChunks_total:
  assumes "\<forall>kc \<in> set (terrainChunks t). chunk_shaped (snd kc)"
  shows "\<exists>t'. animateTerrainChunks t = Inr t'"
proof -
  have "\<exists>ys. map_err (animate_chunk t) (terrainChunks t) = Inr ys"
    by (rule map_err_total) (use assms animate_chunk_total in blast)
  then show ?thesis
    by (auto simp: animateTerrainChunks_def)
qed


lemma lerp_vertex_length:
  "lerp_vertex olds news tt i ps = Inr ps' \<Longrightarrow> length ps' = length ps"
  by (auto simp: lerp_vertex_def split: if_splits)

lemma fold_lerp_vertex_length:
  assumes "fold_err (lerp_vertex olds news tt) ixs ps = Inr ps'"
  shows "length ps' = length ps"
  by (rule fold_err_inv[where P = "\<lambda>q. length q = length ps", OF _ assms])
     (auto dest: lerp_vertex_length)

lemma adopt_vertex_length:
  "adopt_vertex news i hs = Inr hs' \<Longrightarrow> length hs' = length hs"
  by (auto simp: adopt_vertex_def split: if_splits)

lemma fold_adopt_vertex:
  assumes "fold_err (adopt_vertex news) [0..<n] hs = Inr hs'"
  shows "length hs' = length hs
       \<and> (\<forall>i<n. i < length news \<and> (i < length hs \<longrightarrow> hs' ! i = news ! i))"
  using assms
proof (induction n arbitrary: hs')
  case 0
  then show ?case by simp
next
  case (Suc n)
  from Suc.prems obtain hs1 where
    f: "fold_err (adopt_vertex news) [0..<n] hs = Inr hs1"
    and l: "adopt_vertex news n hs1 = Inr hs'"
    by (auto simp: fold_err_append split: sum.splits)
  from Suc.IH[OF f] have len1: "length hs1 = length hs"
    and ih: "\<forall>i<n. i < length news \<and> (i < length hs \<longrightarrow> hs1 ! i = news ! i)"
    by simp_all
  have len: "length hs' = length hs"
    using adopt_vertex_length[OF l] len1 by simp
  have "i < length news \<and> (i < length hs \<longrightarrow> hs' ! i = news ! i)" if i: "i < Suc n" for i
  proof (cases "i = n")
    case True
    with l len1 show ?thesis
      by (auto simp: adopt_vertex_def split: if_splits)
  next
    case False
    with i have "i < n" by simp
    moreover have "hs' ! i = hs1 ! i"
      using l False by (auto simp: adopt_vertex_def split: if_splits)
    ultimately show ?thesis using ih by simp
  qed
  with len show ?case by simp
qed

lemma lerp_chunk_result:
  assumes l: "lerp_chunk t tt kc = Inr kc'"
  shows "fst kc' = fst kc \<and> originalHeights (snd kc') = originalHeights (snd kc)
       \<and> (\<exists>m m'. mesh (snd kc) = Some m \<and> mesh (snd kc') = Some m'
              \<and> length (positions m') = length (positions m))"
proof -
  from l obtain m where m: "mesh (snd kc) = Some m"
    by (auto simp: lerp_chunk_def split: option.splits)
  show ?thesis
  proof (cases "originalHeights (snd kc) = []")
    case True
    with l m show ?thesis by (simp add: lerp_chunk_def)
  next
    case False
    with l m obtain olds news ps where
      f: "fold_err (lerp_vertex olds news tt) [0..<length (originalHeights (snd kc))] (positions m) = Inr ps"
      and k: "kc' = (fst kc, (snd kc)\<lparr>mesh := Some (m\<lparr>positions := ps\<rparr>)\<rparr>)"
      by (auto simp: lerp_chunk_def split: option.splits sum.splits)
    from fold_lerp_vertex_length[OF f] m k show ?thesis by simp
  qed
qed

lemma adopt_chunk_result:
  assumes l: "adopt_chunk t kc = Inr kc'"
  shows "fst kc' = fst kc \<and> mesh (snd kc') = mesh (snd kc)
       \<and> length (originalHeights (snd kc')) = length (originalHeights (snd kc))
       \<and> (\<forall>i < length (originalHeights (snd kc)).
              \<exists>news. map_of (regenNewHeights t) (fst kc) = Some news
                \<and> i < length news \<and> originalHeights (snd kc') ! i = news ! i)"
proof (cases "originalHeights (snd kc) = []")
  case True
  with l show ?thesis by (simp add: adopt_chunk_def)
next
  case False
  with l obtain news hs where
    n: "map_of (regenNewHeights t) (fst kc) = Some news"
    and f: "fold_err (adopt_vertex news) [0..<length (originalHeights (snd kc))] (originalHeights (snd kc)) = Inr hs"
    and k: "kc' = (fst kc, (snd kc)\<lparr>originalHeights := hs\<rparr>)"
    by (auto simp: adopt_chunk_def split: option.splits sum.splits)
  from fold_adopt_vertex[OF f] n k show ?thesis by simp
qed


lemma lerp_factor_pos:
  "0 < d \<Longrightarrow> lerp_factor time d = Inr (min 1 (time / d))"
  by (simp add: lerp_factor_def)

lemma lerp_chunk_key: "lerp_chunk t tt kc = Inr kc' \<Longrightarrow> fst kc' = fst kc"
  by (auto simp: lerp_chunk_def split: option.splits if_splits sum.splits)

lemma adopt_chunk_key: "adopt_chunk t kc = Inr kc' \<Longrightarrow> fst kc' = fst kc"
  by (auto simp: adopt_chunk_def split: option.splits if_splits sum.splits)

lemma regenLerpStep_keys:
  assumes "regenLerpStep dt t = Inr t'"
  shows "map fst (terrainChunks t') = map fst (terrainChunks t)"
proof (cases "regenLerpActive t")
  case False
  with assms show ?thesis by (simp add: regenLerpStep_def)
next
  case True
  with assms obtain tt chunks3 where
    m3: "map_err (lerp_chunk t tt) (terrainChunks t) = Inr chunks3"
    and rest: "(1 \<le> tt \<and> (\<exists>chunks4. map_err (adopt_chunk t) chunks3 = Inr chunks4
                   \<and> terrainChunks t' = chunks4))
               \<or> (\<not> 1 \<le> tt \<and> terrainChunks t' = chunks3)"
    by (auto simp: regenLerpStep_def Let_def split: sum.splits if_splits)
  have k3: "map fst chunks3 = map fst (terrainChunks t)"
    by (rule map_err_keys[OF _ m3]) (rule lerp_chunk_key)
  from rest show ?thesis
  proof
    assume "1 \<le> tt \<and> (\<exists>chunks4. map_err (adopt_chunk t) chunks3 = Inr chunks4
                   \<and> terrainChunks t' = chunks4)"
    then obtain chunks4 where m4: "map_err (adopt_chunk t) chunks3 = Inr chunks4"
      and e: "terrainChunks t' = chunks4" by blast
    have "map fst chunks4 = map fst chunks3"
      by (rule map_err_keys[OF _ m4]) (rule adopt_chunk_key)
    with k3 e show ?thesis by simp
  next
    assume "\<not> 1 \<le> tt \<and> terrainChunks t' = chunks3"
    with k3 show ?thesis by simp
  qed
qed

lemma update_stages:
  assumes "update H dt p t = Inr t'"
  shows "\<exists>kept chunks2.
           updateTerrainChunks H p (t\<lparr>wavePhase := wavePhase t + dt * waveSpeed t\<rparr>)
             = Inr (t\<lparr>wavePhase := wavePhase t + dt * waveSpeed t, terrainChunks := kept\<rparr>)
         \<and> list_all2 (\<lambda>kc kc'. animate_chunk
                (t\<lparr>wavePhase := wavePhase t + dt * waveSpeed t, terrainChunks := kept\<rparr>) kc = Inr kc')
              kept chunks2
         \<and> regenLerpStep dt (t\<lparr>wavePhase := wavePhase t + dt * waveSpeed t, terrainChunks := chunks2\<rparr>)
             = Inr t'"
proof -
  let ?t0 = "t\<lparr>wavePhase := wavePhase t + dt * waveSpeed t\<rparr>"
  from assms obtain t1 t2 where
    u: "updateTerrainChunks H p ?t0 = Inr t1"
    and a: "animateTerrainChunks t1 = Inr t2"
    and r: "regenLerpStep dt t2 = Inr t'"
    by (auto simp: update_def split: sum.splits)
  from updateTerrainChunks_result[OF u] obtain kept where
    t1: "t1 = ?t0\<lparr>terrainChunks := kept\<rparr>" by (elim exE conjE)
  from animateTerrainChunks_result[OF a] obtain chunks2 where
    t2: "t2 = t1\<lparr>terrainChunks := chunks2\<rparr>"
    and l: "list_all2 (\<lambda>kc kc'. animate_chunk t1 kc = Inr kc') (terrainChunks t1) chunks2"
    by (elim exE conjE)
  have e2: "t2 = t\<lparr>wavePhase := wavePhase t + dt * waveSpeed t, terrainChunks := chunks2\<rparr>"
    by (simp add: t2 t1)
  have k1: "terrainChunks t1 = kept" by (simp add: t1)
  from u have u': "updateTerrainChunks H p ?t0
      = Inr (t\<lparr>wavePhase := wavePhase t + dt * waveSpeed t, terrainChunks := kept\<rparr>)"
    unfolding t1 .
  from l have l': "list_all2 (\<lambda>kc kc'. animate_chunk
                (t\<lparr>wavePhase := wavePhase t + dt * waveSpeed t, terrainChunks := kept\<rparr>) kc = Inr kc')
              kept chunks2"
    unfolding k1 unfolding t1 .
  from r have r': "regenLerpStep dt (t\<lparr>wavePhase := wavePhase t + dt * waveSpeed t, terrainChunks := chunks2\<rparr>)
             = Inr t'"
    unfolding e2 .
  from u' l' r' show ?thesis by (intro exI conjI)
qed

lemma requiredChunks_wavePhase [simp]:
  "requiredChunks (t\<lparr>wavePhase := w\<rparr>) p = requiredChunks t p"
  by (simp add: requiredChunks_def required_offsets_def)

lemma update_keys:
  assumes "update H dt p t = Inr t'"
  shows "fst ` set (terrainChunks t') = set (requiredChunks t p)"
proof -
  let ?t0 = "t\<lparr>wavePhase := wavePhase t + dt * waveSpeed t\<rparr>"
  from update_stages[OF assms] obtain kept chunks2 where
    u: "updateTerrainChunks H p ?t0 = Inr (t\<lparr>wavePhase := wavePhase t + dt * waveSpeed t, terrainChunks := kept\<rparr>)"
    and l: "list_all2 (\<lambda>kc kc'. animate_chunk
                (t\<lparr>wavePhase := wavePhase t + dt * waveSpeed t, terrainChunks := kept\<rparr>) kc = Inr kc')
              kept chunks2"
    and r: "regenLerpStep dt (t\<lparr>wavePhase := wavePhase t + dt * waveSpeed t, terrainChunks := chunks2\<rparr>) = Inr t'"
    by (elim exE conjE)
  from updateTerrainChunks_keys[OF u] have k1: "fst ` set kept = set (requiredChunks t p)"
    by simp
  have k2: "map fst chunks2 = map fst kept"
    by (rule all2_keys[OF l]) (use animate_chunk_result in blast)
  from regenLerpStep_keys[OF r] have k3: "map fst (terrainChunks t') = map fst chunks2"
    by simp
  have "fst ` set (terrainChunks t') = set (map fst (terrainChunks t'))" by simp
  also have "\<dots> = set (map fst kept)" unfolding k3 k2 ..
  also have "\<dots> = set (requiredChunks t p)" using k1 by simp
  finally show ?thesis .
qed

section \<open>Frames that complete\<close>

lemma updateTerrainChunks_origin:
  assumes u: "updateTerrainChunks H p t = Inr t'" and kc: "kc \<in> set (terrainChunks t')"
  shows "kc \<in> set (terrainChunks t)
       \<or> createTerrainChunk H t (fst (fst kc)) (snd (fst kc)) = Inr (snd kc)"
proof -
  from updateTerrainChunks_result[OF u] obtain chunks kept where
    c: "create_missing H t (requiredChunks t p) (terrainChunks t) = Inr chunks"
    and s: "set kept = {kc \<in> set chunks. fst kc \<in> set (requiredChunks t p)}"
    and e: "t' = t\<lparr>terrainChunks := kept\<rparr>"
    by (elim exE conjE)
  from kc have "kc \<in> set kept" by (simp add: e)
  with s have in_chunks: "kc \<in> set chunks" by simp
  show ?thesis
  proof (cases "kc \<in> set (terrainChunks t)")
    case True
    then show ?thesis ..
  next
    case False
    from create_missing_new[OF c in_chunks False] show ?thesis by simp
  qed
qed

lemma lerp_vertex_total:
  "i < length olds \<Longrightarrow> i < length news
     \<Longrightarrow> \<exists>ps'. lerp_vertex olds news tt i ps = Inr ps' \<and> length ps' = length ps"
  by (simp add: lerp_vertex_def)

lemma lerp_chunk_total:
  assumes m: "mesh (snd kc) \<noteq> None"
      and o: "map_of (regenOldHeights t) (fst kc) = Some olds"
      and n: "map_of (regenNewHeights t) (fst kc) = Some news"
      and lo: "length (originalHeights (snd kc)) \<le> length olds"
      and ln: "length (originalHeights (snd kc)) \<le> length news"
  shows "\<exists>kc'. lerp_chunk t tt kc = Inr kc'"
proof -
  from m obtain msh where msh: "mesh (snd kc) = Some msh" by blast
  have "\<exists>ps. fold_err (lerp_vertex olds news tt) [0..<length (originalHeights (snd kc))] (positions msh) = Inr ps
          \<and> length ps = length (positions msh)"
  proof (rule fold_err_total[where P = "\<lambda>q. length q = length (positions msh)"])
    fix i :: nat and q :: "real list"
    assume "i \<in> set [0..<length (originalHeights (snd kc))]" and q: "length q = length (positions msh)"
    with lo ln have "i < length olds" "i < length news" by simp_all
    from lerp_vertex_total[OF this, of tt q] q
    show "\<exists>q'. lerp_vertex olds news tt i q = Inr q' \<and> length q' = length (positions msh)"
      by auto
  qed simp
  then obtain ps where
    "fold_err (lerp_vertex olds news tt) [0..<length (originalHeights (snd kc))] (positions msh) = Inr ps"
    by blast
  with msh o n show ?thesis
    by (cases "originalHeights (snd kc) = []") (simp_all add: lerp_chunk_def)
qed

lemma adopt_vertex_total:
  "i < length news \<Longrightarrow> \<exists>hs'. adopt_vertex news i hs = Inr hs' \<and> length hs' = length hs"
  by (simp add: adopt_vertex_def)

lemma adopt_chunk_total:
  assumes n: "map_of (regenNewHeights t) (fst kc) = Some news"
      and ln: "length (originalHeights (snd kc)) \<le> length news"
  shows "\<exists>kc'. adopt_chunk t kc = Inr kc'"
proof -
  have "\<exists>hs. fold_err (adopt_vertex news) [0..<length (originalHeights (snd kc))]
                (originalHeights (snd kc)) = Inr hs
          \<and> length hs = length (originalHeights (snd kc))"
  proof (rule fold_err_total[where P = "\<lambda>q. length q = length (originalHeights (snd kc))"])
    fix i :: nat and q :: "real list"
    assume "i \<in> set [0..<length (originalHeights (snd kc))]"
      and q: "length q = length (originalHeights (snd kc))"
    with ln have "i < length news" by simp
    from adopt_vertex_total[OF this, of q] q
    show "\<exists>q'. adopt_vertex news i q = Inr q' \<and> length q' = length (originalHeights (snd kc))"
      by auto
  qed simp
  then obtain hs where
    "fold_err (adopt_vertex news) [0..<length (originalHeights (snd kc))]
                (originalHeights (snd kc)) = Inr hs"
    by blast
  with n show ?thesis
    by (cases "originalHeights (snd kc) = []") (simp_all add: adopt_chunk_def)
qed

lemma regenLerpStep_total:
  assumes act: "regenLerpActive t \<longrightarrow> 0 < regenLerpDuration t
                  \<and> (\<forall>kc \<in> set (terrainChunks t). regen_covers t kc)"
  shows "\<exists>t'. regenLerpStep dt t = Inr t'"
proof (cases "regenLerpActive t")
  case False
  then show ?thesis by (simp add: regenLerpStep_def)
next
  case True
  with act have dur: "0 < regenLerpDuration t"
    and cov: "\<forall>kc \<in> set (terrainChunks t). regen_covers t kc" by simp_all
  let ?tt = "min 1 ((regenLerpTime t + dt) / regenLerpDuration t)"
  have "\<exists>ys. map_err (lerp_chunk t ?tt) (terrainChunks t) = Inr ys"
  proof (rule map_err_total)
    fix kc
    assume "kc \<in> set (terrainChunks t)"
    with cov have "regen_covers t kc" by blast
    then show "\<exists>y. lerp_chunk t ?tt kc = Inr y"
      unfolding regen_covers_def using lerp_chunk_total[of kc t] by blast
  qed
  then obtain chunks3 where m3: "map_err (lerp_chunk t ?tt) (terrainChunks t) = Inr chunks3" ..
  have "\<exists>ys. map_err (adopt_chunk t) chunks3 = Inr ys"
  proof (rule map_err_total)
    fix kc3
    assume "kc3 \<in> set chunks3"
    from all2_set_right[OF map_err_all2[OF m3] this] obtain kc0 where
      kc0: "kc0 \<in> set (terrainChunks t)" and le: "lerp_chunk t ?tt kc0 = Inr kc3" by blast
    from le have same: "fst kc3 = fst kc0 \<and> originalHeights (snd kc3) = originalHeights (snd kc0)"
      by (auto simp: lerp_chunk_def split: option.splits if_splits sum.splits)
    from cov kc0 have "regen_covers t kc0" by blast
    then obtain news where "map_of (regenNewHeights t) (fst kc0) = Some news"
      and "length (originalHeights (snd kc0)) \<le> length news"
      unfolding regen_covers_def by blast
    with same have "map_of (regenNewHeights t) (fst kc3) = Some news"
      and "length (originalHeights (snd kc3)) \<le> length news" by simp_all
    then show "\<exists>y. adopt_chunk t kc3 = Inr y" by (rule adopt_chunk_total)
  qed
  then obtain chunks4 where m4: "map_err (adopt_chunk t) chunks3 = Inr chunks4" ..
  from True dur m3 m4 show ?thesis
    by (simp add: regenLerpStep_def Let_def lerp_factor_pos)
qed


lemma animate_chunk_built:
  assumes "animate_chunk t kc = Inr kc'" and "chunk_built cfg (snd kc)"
  shows "chunk_built cfg (snd kc')"
  using animate_chunk_result[OF assms(1)] assms(2)
  by (auto simp: chunk_built_def split: option.splits)

lemma lerp_chunk_built:
  assumes l: "lerp_chunk t tt kc = Inr kc'" and b: "chunk_built cfg (snd kc)"
  shows "chunk_built cfg (snd kc')"
proof -
  from lerp_chunk_result[OF l] obtain m m' where
    "originalHeights (snd kc') = originalHeights (snd kc)"
    "mesh (snd kc) = Some m" "mesh (snd kc') = Some m'"
    "length (positions m') = length (positions m)"
    by blast
  with b show ?thesis
    by (auto simp: chunk_built_def split: option.splits)
qed

lemma adopt_chunk_built:
  assumes l: "adopt_chunk t kc = Inr kc'" and b: "chunk_built cfg (snd kc)"
  shows "chunk_built cfg (snd kc')"
  using adopt_chunk_result[OF l] b
  by (auto simp: chunk_built_def split: option.splits)

lemma map_err_preserves:
  assumes m: "map_err f xs = Inr ys" and p: "\<forall>x \<in> set xs. P x"
      and step: "\<And>x y. f x = Inr y \<Longrightarrow> P x \<Longrightarrow> Q y"
  shows "\<forall>y \<in> set ys. Q y"
proof
  fix y
  assume "y \<in> set ys"
  from all2_set_right[OF map_err_all2[OF m] this] obtain x where "x \<in> set xs" "f x = Inr y"
    by blast
  with p step show "Q y" by blast
qed

lemma regenLerpStep_built:
  assumes r: "regenLerpStep dt t = Inr t'"
      and inv: "\<forall>kc \<in> set (terrainChunks t). chunk_built cfg (snd kc)"
  shows "\<forall>kc \<in> set (terrainChunks t'). chunk_built cfg (snd kc)"
proof (cases "regenLerpActive t")
  case False
  with r inv show ?thesis by (simp add: regenLerpStep_def)
next
  case True
  with r obtain tt chunks3 where
    m3: "map_err (lerp_chunk t tt) (terrainChunks t) = Inr chunks3"
    and rest: "(1 \<le> tt \<and> (\<exists>chunks4. map_err (adopt_chunk t) chunks3 = Inr chunks4
                   \<and> terrainChunks t' = chunks4))
               \<or> (\<not> 1 \<le> tt \<and> terrainChunks t' = chunks3)"
    by (auto simp: regenLerpStep_def Let_def split: sum.splits if_splits)
  have b3: "\<forall>kc \<in> set chunks3. chunk_built cfg (snd kc)"
    by (rule map_err_preserves[OF m3 inv]) (rule lerp_chunk_built)
  from rest show ?thesis
  proof
    assume "1 \<le> tt \<and> (\<exists>chunks4. map_err (adopt_chunk t) chunks3 = Inr chunks4
                   \<and> terrainChunks t' = chunks4)"
    then obtain chunks4 where m4: "map_err (adopt_chunk t) chunks3 = Inr chunks4"
      and e: "terrainChunks t' = chunks4" by blast
    have "\<forall>kc \<in> set chunks4. chunk_built cfg (snd kc)"
      by (rule map_err_preserves[OF m4 b3]) (rule adopt_chunk_built)
    with e show ?thesis by simp
  next
    assume "\<not> 1 \<le> tt \<and> terrainChunks t' = chunks3"
    with b3 show ?thesis by simp
  qed
qed

lemma update_total:
  assumes cs: "chunkSize t \<noteq> 0" and res: "0 < chunkResolution t"
      and seed: "\<not> no_seed (terrainSeed t)"
      and inv: "\<forall>kc \<in> set (terrainChunks t). chunk_built t (snd kc)"
      and tabs: "regenLerpActive t \<longrightarrow> 0 < regenLerpDuration t
           \<and> (\<forall>k \<in> set (requiredChunks t p). \<exists>olds news.
                 map_of (regenOldHeights t) k = Some olds \<and> map_of (regenNewHeights t) k = Some news
                 \<and> (chunkResolution t + 1)\<^sup>2 \<le> length olds
                 \<and> (chunkResolution t + 1)\<^sup>2 \<le> length news)"
  shows "\<exists>t'. update H dt p t = Inr t' \<and> (\<forall>kc \<in> set (terrainChunks t'). chunk_built t (snd kc))"
proof -
  let ?t0 = "t\<lparr>wavePhase := wavePhase t + dt * waveSpeed t\<rparr>"
  have inv0: "\<forall>kc \<in> set (terrainChunks ?t0). chunk_built ?t0 (snd kc)"
    using inv by (simp add: chunk_built_cong[of ?t0 t])
  have "\<exists>t1. updateTerrainChunks H p ?t0 = Inr t1
          \<and> (\<forall>kc \<in> set (terrainChunks t1). chunk_built t1 (snd kc))"
    by (rule updateTerrainChunks_built) (use cs res seed inv0 in simp_all)
  then obtain t1 where u: "updateTerrainChunks H p ?t0 = Inr t1"
    and b1': "\<forall>kc \<in> set (terrainChunks t1). chunk_built t1 (snd kc)" by blast
  from updateTerrainChunks_result[OF u] obtain kept where
    t1: "t1 = ?t0\<lparr>terrainChunks := kept\<rparr>" by (elim exE conjE)
  have cfg1: "chunkResolution t1 = chunkResolution t" by (simp add: t1)
  from b1' have b1: "\<forall>kc \<in> set (terrainChunks t1). chunk_built t (snd kc)"
    by (simp add: chunk_built_cong[OF cfg1])
  from updateTerrainChunks_keys[OF u] have k1: "fst ` set (terrainChunks t1) = set (requiredChunks t p)"
    by simp
  have "\<exists>t2. animateTerrainChunks t1 = Inr t2"
    by (rule animateTerrainChunks_total) (use b1 chunk_built_shaped in blast)
  then obtain t2 where a: "animateTerrainChunks t1 = Inr t2" ..
  from animateTerrainChunks_result[OF a] obtain chunks2 where
    t2: "t2 = t1\<lparr>terrainChunks := chunks2\<rparr>"
    and l: "list_all2 (\<lambda>kc kc'. animate_chunk t1 kc = Inr kc') (terrainChunks t1) chunks2"
    by (elim exE conjE)
  have c2: "terrainChunks t2 = chunks2" by (simp add: t2)
  have b2: "\<forall>kc \<in> set chunks2. chunk_built t (snd kc)"
  proof
    fix kc'
    assume "kc' \<in> set chunks2"
    from all2_set_right[OF l this] obtain kc where "kc \<in> set (terrainChunks t1)"
      and "animate_chunk t1 kc = Inr kc'" by blast
    with b1 animate_chunk_built show "chunk_built t (snd kc')" by blast
  qed
  have k2: "map fst chunks2 = map fst (terrainChunks t1)"
    by (rule all2_keys[OF l]) (use animate_chunk_result in blast)
  have keys2: "fst ` set chunks2 = set (requiredChunks t p)"
  proof -
    have "fst ` set chunks2 = set (map fst chunks2)" by simp
    also have "\<dots> = set (map fst (terrainChunks t1))" unfolding k2 ..
    also have "\<dots> = set (requiredChunks t p)" using k1 by simp
    finally show ?thesis .
  qed
  have f2: "regenLerpActive t2 = regenLerpActive t" "regenLerpDuration t2 = regenLerpDuration t"
    "regenOldHeights t2 = regenOldHeights t" "regenNewHeights t2 = regenNewHeights t"
    by (simp_all add: t2 t1)
  have "\<exists>t'. regenLerpStep dt t2 = Inr t'"
  proof (rule regenLerpStep_total, intro impI conjI ballI)
    assume "regenLerpActive t2"
    with tabs f2 show "0 < regenLerpDuration t2" by simp
  next
    fix kc
    assume act: "regenLerpActive t2" and kc: "kc \<in> set (terrainChunks t2)"
    from kc c2 b2 have b: "chunk_built t (snd kc)" by simp
    from kc c2 keys2 have "fst kc \<in> set (requiredChunks t p)" by force
    with tabs act f2 obtain olds news where
      "map_of (regenOldHeights t) (fst kc) = Some olds"
      "map_of (regenNewHeights t) (fst kc) = Some news"
      "(chunkResolution t + 1)\<^sup>2 \<le> length olds"
      "(chunkResolution t + 1)\<^sup>2 \<le> length news" by blast
    moreover from b have "mesh (snd kc) \<noteq> None"
      and "length (originalHeights (snd kc)) = (chunkResolution t + 1)\<^sup>2"
      by (auto simp: chunk_built_def split: option.splits)
    ultimately show "regen_covers t2 kc"
      unfolding regen_covers_def f2 by simp
  qed
  then obtain t' where r: "regenLerpStep dt t2 = Inr t'" ..
  from c2 b2 have "\<forall>kc \<in> set (terrainChunks t2). chunk_built t (snd kc)" by simp
  from regenLerpStep_built[OF r this] have b': "\<forall>kc \<in> set (terrainChunks t'). chunk_built t (snd kc)" .
  from u a r have "update H dt p t = Inr t'"
    by (simp add: update_def)
  with b' show ?thesis by blast
qed

section \<open>The streamed set of chunks\<close>

lemma disc_150_100:
  "sqrt (of_int (a * a + b * b)) * 100 \<le> (150::real) \<longleftrightarrow> a \<in> {-1, 0, 1} \<and> b \<in> {-1, 0, 1}"
proof -
  define n where "n = a * a + b * b"
  have nn: "(0::real) \<le> of_int n" by (simp add: n_def)
  have "sqrt (of_int n) * 100 \<le> (150::real) \<longleftrightarrow> real_of_int n * 100\<^sup>2 \<le> 150\<^sup>2"
    by (rule sqrt_scaled_le[OF nn]) simp_all
  also have "\<dots> \<longleftrightarrow> n \<le> 2"
  proof
    assume "real_of_int n * 100\<^sup>2 \<le> 150\<^sup>2"
    then have "real_of_int n < 3" by simp
    then have "n < 3" by linarith
    then show "n \<le> 2" by simp
  next
    assume "n \<le> 2"
    then have "real_of_int n \<le> 2" by linarith
    then show "real_of_int n * 100\<^sup>2 \<le> 150\<^sup>2" by simp
  qed
  finally show ?thesis unfolding n_def by (simp only: int_sq_le_2)
qed

lemma center_distance_100:
  assumes cs: "chunkSize t = 100" and rd: "renderDistance t = 150"
      and sn: "\<lfloor>fst p / 100\<rfloor> = 0" "\<lfloor>snd p / 100\<rfloor> = 0"
  shows "euclid (chunk_center t k) (snapped t p)
        = sqrt (of_int (fst k * fst k + snd k * snd k)) * 100"
proof -
  have pos: "0 < chunkSize t" using cs by simp
  show ?thesis
    by (simp add: euclid_center_snapped[OF pos] cs sn)
qed

lemma center_distance_100_le:
  assumes cs: "chunkSize t = 100" and rd: "renderDistance t = 150"
      and sn: "\<lfloor>fst p / 100\<rfloor> = 0" "\<lfloor>snd p / 100\<rfloor> = 0"
  shows "euclid (chunk_center t k) (snapped t p) \<le> renderDistance t
          \<longleftrightarrow> fst k \<in> {-1, 0, 1} \<and> snd k \<in> {-1, 0, 1}"
  unfolding center_distance_100[OF assms] rd by (rule disc_150_100)


lemma nine_keys:
  assumes cs: "chunkSize t = 100" and rd: "renderDistance t = 150"
      and sn: "\<lfloor>fst p / 100\<rfloor> = 0" "\<lfloor>snd p / 100\<rfloor> = 0"
  shows "{k. euclid (chunk_center t k) (snapped t p) \<le> renderDistance t}
     = {-1, 0, 1} \<times> {-1, 0, 1}"
proof (rule set_eqI)
  fix k
  show "k \<in> {k. euclid (chunk_center t k) (snapped t p) \<le> renderDistance t}
      \<longleftrightarrow> k \<in> {-1, 0, 1} \<times> {-1, 0, 1}"
    unfolding mem_Collect_eq center_distance_100_le[OF assms] mem_Times_iff ..
qed

lemma snapped_on_grid:
  assumes "chunkSize t \<noteq> 0"
  shows "snapped t (of_int i * chunkSize t, of_int j * chunkSize t)
     = (of_int i * chunkSize t, of_int j * chunkSize t)"
  using assms by (simp add: snapped_def)

text \<open>
  C3, amended: after \<open>update\<close> returns, the cached keys are exactly the keys whose chunk
  centre lies within \<open>renderDistance\<close> of the reference point moved down to the chunk
  grid, \<open>(\<lfloor>x / chunkSize\<rfloor> * chunkSize, \<lfloor>z / chunkSize\<rfloor> * chunkSize)\<close>. For a reference
  point on the grid this is the distance to the reference point itself; with chunk size
  \<open>100\<close>, render distance \<open>150\<close> and reference point \<open>(0, 0)\<close> the cached keys are the
  nine keys \<open>{-1, 0, 1} \<times> {-1, 0, 1}\<close>, and \<open>(2, 0)\<close> is not among them.
\<close>

theorem update_caches_chunks_around_snapped_reference:
  assumes cs: "0 < chunkSize t" and ret: "update H deltaTime p t = Inr t'"
  shows "fst ` set (terrainChunks t')
           = {k. euclid (chunk_center t k) (snapped t p) \<le> renderDistance t}
       \<and> ((\<exists>i j. p = (of_int i * chunkSize t, of_int j * chunkSize t)) \<longrightarrow> snapped t p = p)
       \<and> (chunkSize t = 100 \<and> renderDistance t = 150 \<and> p = (0, 0)
            \<longrightarrow> fst ` set (terrainChunks t') = {-1, 0, 1} \<times> {-1, 0, 1}
                \<and> (2, 0) \<notin> fst ` set (terrainChunks t'))"
proof -
  have keys: "fst ` set (terrainChunks t')
           = {k. euclid (chunk_center t k) (snapped t p) \<le> renderDistance t}"
    using update_keys[OF ret] requiredChunks_set[OF cs] by simp
  have grid: "(\<exists>i j. p = (of_int i * chunkSize t, of_int j * chunkSize t)) \<longrightarrow> snapped t p = p"
    using cs snapped_on_grid[of t] by auto
  have ex: "chunkSize t = 100 \<and> renderDistance t = 150 \<and> p = (0, 0)
            \<longrightarrow> fst ` set (terrainChunks t') = {-1, 0, 1} \<times> {-1, 0, 1}
                \<and> (2, 0) \<notin> fst ` set (terrainChunks t')"
  proof
    assume a: "chunkSize t = 100 \<and> renderDistance t = 150 \<and> p = (0, 0)"
    then have "{k. euclid (chunk_center t k) (snapped t p) \<le> renderDistance t}
        = {-1, 0, 1} \<times> {-1, 0, 1}"
      by (intro nine_keys) simp_all
    with keys have "fst ` set (terrainChunks t') = {-1, 0, 1} \<times> {-1, 0, 1}" by simp
    then show "fst ` set (terrainChunks t') = {-1, 0, 1} \<times> {-1, 0, 1}
                \<and> (2, 0) \<notin> fst ` set (terrainChunks t')" by simp
  qed
  from keys grid ex show ?thesis by (intro conjI)
qed

lemma small_terrain_fields:
  "chunkSize (small_terrain s) = 100" "renderDistance (small_terrain s) = 150"
  "chunkResolution (small_terrain s) = 1" "terrainChunks (small_terrain s) = []"
  "terrainSeed (small_terrain s) = s" "\<not> regenLerpActive (small_terrain s)"
  by (simp_all add: small_terrain_def new_UnifiedTerrain_def)

lemma small_update_total:
  "\<exists>t'. update sample_height dt p (small_terrain (Some 5)) = Inr t'"
proof -
  have "\<exists>t'. update sample_height dt p (small_terrain (Some 5)) = Inr t'
          \<and> (\<forall>kc \<in> set (terrainChunks t'). chunk_built (small_terrain (Some 5)) (snd kc))"
    by (rule update_total) (simp_all add: small_terrain_fields no_seed_def)
  then show ?thesis by blast
qed

lemma euclid_same_z: "euclid (a, b) (c, b) = \<bar>a - c\<bar>"
  by (simp add: euclid_def)

text \<open>
  C3, as stated, fails for a reference point off the grid: with chunk size \<open>100\<close> and
  render distance \<open>150\<close>, after \<open>update\<close> at \<open>(99, 0)\<close> the cache holds the nine keys
  around \<open>(0, 0)\<close>; the chunk \<open>(2, 0)\<close>, whose centre is at distance \<open>101\<close> from the
  reference point, is not cached.
\<close>

theorem update_ignores_offset_within_chunk:
  "cached_keys (update sample_height 0 (99, 0) (small_terrain (Some 5)))
     = Some {(-1, -1), (-1, 0), (-1, 1), (0, -1), (0, 0), (0, 1), (1, -1), (1, 0), (1, 1)}
   \<and> euclid (chunk_center (small_terrain (Some 5)) (2, 0)) (99, 0) = 101
   \<and> renderDistance (small_terrain (Some 5)) = 150"
proof -
  let ?t = "small_terrain (Some 5)"
  from small_update_total obtain t' where u: "update sample_height 0 (99, 0) ?t = Inr t'" by blast
  have cs: "0 < chunkSize ?t" by (simp add: small_terrain_fields)
  have "fst ` set (terrainChunks t') = {k. euclid (chunk_center ?t k) (snapped ?t (99, 0)) \<le> renderDistance ?t}"
    using update_keys[OF u] requiredChunks_set[OF cs] by simp
  also have "\<dots> = {-1, 0, 1} \<times> {-1, 0, 1}"
    by (rule nine_keys) (simp_all add: small_terrain_fields)
  finally have "cached_keys (Inr t') = Some ({-1, 0, 1} \<times> {-1, 0, 1})"
    by (simp add: cached_keys_def)
  moreover have "{-1, 0, 1} \<times> {-1, 0, 1}
      = {(-1, -1), (-1, 0), (-1, 1), (0, -1), (0, 0), (0, 1), (1, -1), (1, 0), (1::int, 1::int)}"
    by (simp add: insert_Times_insert insert_commute)
  moreover have "euclid (chunk_center ?t (2, 0)) (99, 0) = 101"
    by (simp add: chunk_center_def small_terrain_fields euclid_same_z)
  ultimately show ?thesis
    using u by (simp add: small_terrain_fields)
qed

text \<open>The streaming example of C3, run from an empty cache.\<close>

theorem update_caches_chunks_around_snapped_reference_witness:
  "cached_keys (update sample_height 0 (0, 0) (small_terrain (Some 5)))
     = Some ({-1, 0, 1} \<times> {-1, 0, 1})"
proof -
  let ?t = "small_terrain (Some 5)"
  from small_update_total obtain t' where u: "update sample_height 0 (0, 0) ?t = Inr t'" by blast
  have cs: "0 < chunkSize ?t" by (simp add: small_terrain_fields)
  have cfg: "chunkSize ?t = 100 \<and> renderDistance ?t = 150 \<and> ((0, 0) :: real \<times> real) = (0, 0)"
    by (simp add: small_terrain_fields)
  from update_caches_chunks_around_snapped_reference[OF cs u] cfg
  have "fst ` set (terrainChunks t') = {-1, 0, 1} \<times> {-1, 0, 1}" by blast
  then show ?thesis
    unfolding u by (simp add: cached_keys_def)
qed

section \<open>Chunk boundaries and the safety of eviction\<close>

lemma concat_triples_nth:
  "i < length vs \<Longrightarrow>
     concat (map (\<lambda>v. [a v, b v, c v]) vs) ! (i * 3) = a (vs ! i)
   \<and> concat (map (\<lambda>v. [a v, b v, c v]) vs) ! (i * 3 + 1) = b (vs ! i)
   \<and> concat (map (\<lambda>v. [a v, b v, c v]) vs) ! (i * 3 + 2) = c (vs ! i)"
proof (induction vs arbitrary: i)
  case Nil
  then show ?case by simp
next
  case (Cons v vs)
  show ?case
  proof (cases i)
    case 0
    then show ?thesis by simp
  next
    case (Suc i')
    with Cons.prems have "i' < length vs" by simp
    from Cons.IH[OF this] Suc show ?thesis by simp
  qed
qed

lemma grid_nth:
  assumes "x \<le> n" "z \<le> n"
  shows "List.product [0..<Suc n] [0..<Suc n] ! (z * (n + 1) + x) = (z, x)"
    and "z * (n + 1) + x < length (List.product [0..<Suc n] [0..<Suc n])"
proof -
  have "z * (n + 1) + x < (n + 1) * (n + 1)"
  proof -
    have "z * (n + 1) + x < z * (n + 1) + (n + 1)" using assms by simp
    also have "\<dots> = (z + 1) * (n + 1)" by simp
    also have "\<dots> \<le> (n + 1) * (n + 1)" using assms by (intro mult_right_mono) simp_all
    finally show ?thesis .
  qed
  then show lt: "z * (n + 1) + x < length (List.product [0..<Suc n] [0..<Suc n])"
    by (simp del: upt_Suc)
  have xm: "x < n + 1" using assms by simp
  have d: "(z * (n + 1) + x) div (n + 1) = z"
    using xm by (simp only: div_mult_self3 div_less)
  have m: "(z * (n + 1) + x) mod (n + 1) = x"
    using xm by (simp only: mod_mult_self3 mod_less)
  have zz: "[0..<Suc n] ! z = z" using assms by (simp del: upt_Suc)
  have xx: "[0..<Suc n] ! x = x" using assms by (simp del: upt_Suc)
  from lt have "List.product [0..<Suc n] [0..<Suc n] ! (z * (n + 1) + x)
      = ([0..<Suc n] ! ((z * (n + 1) + x) div length [0..<Suc n]),
         [0..<Suc n] ! ((z * (n + 1) + x) mod length [0..<Suc n]))"
    by (intro product_nth) (simp del: upt_Suc)
  also have "\<dots> = (z, x)"
    using d m zz xx by (simp del: upt_Suc)
  finally show "List.product [0..<Suc n] [0..<Suc n] ! (z * (n + 1) + x) = (z, x)" .
qed

lemma created_vertex:
  assumes seed: "\<not> no_seed (terrainSeed t)" and res: "0 < chunkResolution t"
      and x: "x \<le> chunkResolution t" and z: "z \<le> chunkResolution t"
      and c: "createTerrainChunk H t cX cZ = Inr c"
  shows "chunk_vertex c (vertex_index t x z)
           = Some (vertex_coord t cX x,
                   H (terrainSeed t) (vertex_coord t cX x) (vertex_coord t cZ z),
                   vertex_coord t cZ z)"
    and "originalHeights c ! (vertex_index t x z)
           = H (terrainSeed t) (vertex_coord t cX x) (vertex_coord t cZ z)"
    and "vertex_index t x z < length (originalHeights c)"
proof -
  let ?n = "chunkResolution t"
  let ?grid = "List.product [0..<Suc ?n] [0..<Suc ?n]"
  let ?i = "vertex_index t x z"
  from c seed res have m: "mesh c = Some \<lparr>positions = chunk_vertices H t cX cZ\<rparr>"
    and h: "originalHeights c = height_entries (chunk_vertices H t cX cZ)"
    by (auto simp: createTerrainChunk_def Let_def split: if_splits)
  have i: "?i < length ?grid" and g: "?grid ! ?i = (z, x)"
    unfolding vertex_index_def using grid_nth[OF x z] by simp_all
  have len: "?i * 3 + 2 < length (chunk_vertices H t cX cZ)"
    unfolding chunk_vertices_triples' concat_triples_length using i by simp
  note nth = concat_triples_nth[OF i,
      of "\<lambda>v. vertex_coord t cX (snd v)"
         "\<lambda>v. H (terrainSeed t) (vertex_coord t cX (snd v)) (vertex_coord t cZ (fst v))"
         "\<lambda>v. vertex_coord t cZ (fst v)"]
  show "chunk_vertex c ?i
           = Some (vertex_coord t cX x,
                   H (terrainSeed t) (vertex_coord t cX x) (vertex_coord t cZ z),
                   vertex_coord t cZ z)"
    using len nth unfolding chunk_vertex_def m g chunk_vertices_triples'[symmetric]
    by (simp add: g)
  show "originalHeights c ! ?i = H (terrainSeed t) (vertex_coord t cX x) (vertex_coord t cZ z)"
    unfolding h chunk_heights using i by (simp add: g del: upt_Suc)
  show "?i < length (originalHeights c)"
    unfolding h chunk_heights using i by (simp del: upt_Suc)
qed

lemma boundary_coord:
  "0 < chunkResolution t \<Longrightarrow> vertex_coord t c (chunkResolution t) = vertex_coord t (c + 1) 0"
  by (simp add: vertex_coord_def algebra_simps)


text \<open>
  C9: two adjacent chunks created under the same seed compute the same world coordinates
  for a vertex on their common edge and store the same height there, the value of the
  height function at these coordinates. \<open>bx\<close> is the neighbour in \<open>x\<close>, \<open>bz\<close> the
  neighbour in \<open>z\<close>, and \<open>j\<close> runs along the common edge. Coordinates are reals; with the
  constructor's chunk size \<open>200\<close> and resolution \<open>32\<close> every operation of the coordinate
  formula is exact in binary floating point as well.
\<close>

theorem adjacent_chunks_agree_on_boundary:
  assumes seed: "\<not> no_seed (terrainSeed t)" and res: "0 < chunkResolution t"
      and j: "j \<le> chunkResolution t"
      and a: "createTerrainChunk H t cX cZ = Inr a"
      and bx: "createTerrainChunk H t (cX + 1) cZ = Inr bx"
      and bz: "createTerrainChunk H t cX (cZ + 1) = Inr bz"
  shows "chunk_vertex a (vertex_index t (chunkResolution t) j) = chunk_vertex bx (vertex_index t 0 j)
       \<and> chunk_vertex bx (vertex_index t 0 j)
           = Some (vertex_coord t (cX + 1) 0,
                   H (terrainSeed t) (vertex_coord t (cX + 1) 0) (vertex_coord t cZ j),
                   vertex_coord t cZ j)
       \<and> originalHeights a ! vertex_index t (chunkResolution t) j
           = originalHeights bx ! vertex_index t 0 j
       \<and> chunk_vertex a (vertex_index t j (chunkResolution t)) = chunk_vertex bz (vertex_index t j 0)
       \<and> chunk_vertex bz (vertex_index t j 0)
           = Some (vertex_coord t cX j,
                   H (terrainSeed t) (vertex_coord t cX j) (vertex_coord t (cZ + 1) 0),
                   vertex_coord t (cZ + 1) 0)
       \<and> originalHeights a ! vertex_index t j (chunkResolution t)
           = originalHeights bz ! vertex_index t j 0"
proof -
  have r: "chunkResolution t \<le> chunkResolution t" and z: "0 \<le> chunkResolution t" by simp_all
  note ax = created_vertex[OF seed res r j a]
  note az = created_vertex[OF seed res j r a]
  note bx0 = created_vertex[OF seed res z j bx]
  note bz0 = created_vertex[OF seed res j z bz]
  note bc = boundary_coord[OF res]
  from ax(1) bx0(1) have 1: "chunk_vertex a (vertex_index t (chunkResolution t) j)
      = chunk_vertex bx (vertex_index t 0 j)"
    unfolding bc by simp
  from ax(2) bx0(2) have 2: "originalHeights a ! vertex_index t (chunkResolution t) j
      = originalHeights bx ! vertex_index t 0 j"
    unfolding bc by simp
  from az(1) bz0(1) have 3: "chunk_vertex a (vertex_index t j (chunkResolution t))
      = chunk_vertex bz (vertex_index t j 0)"
    unfolding bc by simp
  from az(2) bz0(2) have 4: "originalHeights a ! vertex_index t j (chunkResolution t)
      = originalHeights bz ! vertex_index t j 0"
    unfolding bc by simp
  from 1 bx0(1) 2 3 bz0(1) 4 show ?thesis by (intro conjI)
qed

text \<open>The vertex shared by the chunks \<open>(0, 0)\<close> and \<open>(1, 0)\<close> in the small configuration.\<close>

theorem adjacent_chunks_agree_on_boundary_witness:
  "\<exists>a bx. createTerrainChunk sample_height (small_terrain (Some 5)) 0 0 = Inr a
        \<and> createTerrainChunk sample_height (small_terrain (Some 5)) 1 0 = Inr bx
        \<and> chunk_vertex a (vertex_index (small_terrain (Some 5)) 1 1) = Some (50, 155, 50)
        \<and> chunk_vertex bx (vertex_index (small_terrain (Some 5)) 0 1) = Some (50, 155, 50)"
proof -
  let ?t = "small_terrain (Some 5)"
  have seed: "\<not> no_seed (terrainSeed ?t)" and res: "0 < chunkResolution ?t"
    and j: "1 \<le> chunkResolution ?t"
    by (simp_all add: small_terrain_fields no_seed_def)
  from createTerrainChunk_built[OF seed res, of sample_height 0 0] obtain a where
    a: "createTerrainChunk sample_height ?t 0 0 = Inr a" by blast
  from createTerrainChunk_built[OF seed res, of sample_height "0 + 1" 0] obtain bx where
    bx: "createTerrainChunk sample_height ?t (0 + 1) 0 = Inr bx" by blast
  from createTerrainChunk_built[OF seed res, of sample_height 0 "0 + 1"] obtain bz where
    bz: "createTerrainChunk sample_height ?t 0 (0 + 1) = Inr bz" by blast
  note w = adjacent_chunks_agree_on_boundary[OF seed res j a bx bz]
  have v: "Some (vertex_coord ?t (0 + 1) 0,
                 sample_height (terrainSeed ?t) (vertex_coord ?t (0 + 1) 0) (vertex_coord ?t 0 1),
                 vertex_coord ?t 0 1) = Some (50, 155, 50)"
    by (simp add: vertex_coord_def small_terrain_fields sample_height_def)
  have r1: "chunkResolution ?t = 1" by (simp add: small_terrain_fields)
  from w have "chunk_vertex a (vertex_index ?t 1 1) = Some (50, 155, 50)"
    and "chunk_vertex bx (vertex_index ?t 0 1) = Some (50, 155, 50)"
    unfolding v r1 by simp_all
  with a bx show ?thesis by auto
qed

text \<open>
  C10: with a non-zero seed, and every cached chunk built (a mesh and exactly
  \<open>(chunkResolution + 1)\<^sup>2\<close> heights), \<open>updateTerrainChunks\<close> returns without an error
  and every chunk of the new cache is built again; so is every chunk after a whole frame
  outside a transition. With a zero or missing seed a required chunk that is not cached is
  stored with no mesh and no heights. And whenever a cached chunk without a mesh is no
  longer required, the eviction loop throws.
\<close>

theorem eviction_safe_only_under_seed:
  "(chunkSize t \<noteq> 0 \<and> 0 < chunkResolution t \<and> \<not> no_seed (terrainSeed t)
      \<and> (\<forall>kc \<in> set (terrainChunks t). chunk_built t (snd kc))
     \<longrightarrow> (\<exists>t'. updateTerrainChunks H p t = Inr t'
            \<and> (\<forall>kc \<in> set (terrainChunks t'). chunk_built t' (snd kc))))
   \<and> (chunkSize t \<noteq> 0 \<and> 0 < chunkResolution t \<and> \<not> no_seed (terrainSeed t)
      \<and> (\<forall>kc \<in> set (terrainChunks t). chunk_built t (snd kc)) \<and> \<not> regenLerpActive t
     \<longrightarrow> (\<exists>t'. update H deltaTime p t = Inr t'
            \<and> (\<forall>kc \<in> set (terrainChunks t'). chunk_built t (snd kc))))
   \<and> (chunkSize t \<noteq> 0 \<and> no_seed (terrainSeed t)
      \<and> (\<forall>kc \<in> set (terrainChunks t). mesh (snd kc) \<noteq> None)
      \<and> k \<in> set (requiredChunks t p) \<and> k \<notin> fst ` set (terrainChunks t)
     \<longrightarrow> (\<exists>t'. updateTerrainChunks H p t = Inr t'
            \<and> (k, \<lparr>mesh = None, chunkX = fst k, chunkZ = snd k, originalHeights = []\<rparr>)
                 \<in> set (terrainChunks t')))
   \<and> (chunkSize t \<noteq> 0 \<and> (no_seed (terrainSeed t) \<or> 0 < chunkResolution t)
      \<and> (k, c) \<in> set (terrainChunks t) \<and> mesh c = None \<and> k \<notin> set (requiredChunks t p)
     \<longrightarrow> updateTerrainChunks H p t = Inl TypeError)"
proof (intro conjI impI)
  assume "chunkSize t \<noteq> 0 \<and> 0 < chunkResolution t \<and> \<not> no_seed (terrainSeed t)
      \<and> (\<forall>kc \<in> set (terrainChunks t). chunk_built t (snd kc))"
  then show "\<exists>t'. updateTerrainChunks H p t = Inr t'
            \<and> (\<forall>kc \<in> set (terrainChunks t'). chunk_built t' (snd kc))"
    using updateTerrainChunks_built[of t H p] by blast
next
  assume "chunkSize t \<noteq> 0 \<and> 0 < chunkResolution t \<and> \<not> no_seed (terrainSeed t)
      \<and> (\<forall>kc \<in> set (terrainChunks t). chunk_built t (snd kc)) \<and> \<not> regenLerpActive t"
  then show "\<exists>t'. update H deltaTime p t = Inr t'
            \<and> (\<forall>kc \<in> set (terrainChunks t'). chunk_built t (snd kc))"
    using update_total[of t p H deltaTime] by blast
next
  assume "chunkSize t \<noteq> 0 \<and> no_seed (terrainSeed t)
      \<and> (\<forall>kc \<in> set (terrainChunks t). mesh (snd kc) \<noteq> None)
      \<and> k \<in> set (requiredChunks t p) \<and> k \<notin> fst ` set (terrainChunks t)"
  then show "\<exists>t'. updateTerrainChunks H p t = Inr t'
            \<and> (k, \<lparr>mesh = None, chunkX = fst k, chunkZ = snd k, originalHeights = []\<rparr>)
                 \<in> set (terrainChunks t')"
    using updateTerrainChunks_stores_null[of t k p H] by blast
next
  assume "chunkSize t \<noteq> 0 \<and> (no_seed (terrainSeed t) \<or> 0 < chunkResolution t)
      \<and> (k, c) \<in> set (terrainChunks t) \<and> mesh c = None \<and> k \<notin> set (requiredChunks t p)"
  then show "updateTerrainChunks H p t = Inl TypeError"
    using updateTerrainChunks_null_evicted[of t k c p H] by blast
qed


lemma null_chunk_terrain_fields:
  "chunkSize null_chunk_terrain = 100" "renderDistance null_chunk_terrain = 150"
  "chunkResolution null_chunk_terrain = 1" "terrainSeed null_chunk_terrain = Some 0"
  "terrainChunks null_chunk_terrain
     = [((0, 0), \<lparr>mesh = None, chunkX = 0, chunkZ = 0, originalHeights = []\<rparr>)]"
  by (simp_all add: null_chunk_terrain_def small_terrain_fields)

lemma origin_required_small: "(0, 0) \<in> set (requiredChunks (small_terrain s) (0, 0))"
proof -
  have pos: "0 < chunkSize (small_terrain s)" by (simp add: small_terrain_fields)
  have "{k. euclid (chunk_center (small_terrain s) k) (snapped (small_terrain s) (0, 0))
            \<le> renderDistance (small_terrain s)} = {-1, 0, 1} \<times> {-1, 0, 1}"
    by (rule nine_keys) (simp_all add: small_terrain_fields)
  then show ?thesis
    unfolding requiredChunks_set[OF pos] by simp
qed

lemma origin_not_required_far: "(0, 0) \<notin> set (requiredChunks null_chunk_terrain (1000, 0))"
proof -
  have pos: "0 < chunkSize null_chunk_terrain" by (simp add: null_chunk_terrain_fields)
  have "euclid (chunk_center null_chunk_terrain (0, 0)) (snapped null_chunk_terrain (1000, 0)) = 1000"
    by (simp add: chunk_center_def snapped_def null_chunk_terrain_fields euclid_same_z)
  then show ?thesis
    unfolding requiredChunks_set[OF pos] by (simp add: null_chunk_terrain_fields)
qed

text \<open>
  The four cases of C10 in the small configuration: seed \<open>5\<close> from an empty cache, seed
  \<open>0\<close> from an empty cache, and the chunk stored without a mesh when the reference point
  has moved to \<open>(1000, 0)\<close>.
\<close>

theorem eviction_safe_only_under_seed_witness:
  "(\<exists>t'. updateTerrainChunks sample_height (0, 0) (small_terrain (Some 5)) = Inr t'
         \<and> (\<forall>kc \<in> set (terrainChunks t'). chunk_built t' (snd kc)))
   \<and> (\<exists>t'. update sample_height 0 (0, 0) (small_terrain (Some 5)) = Inr t'
         \<and> (\<forall>kc \<in> set (terrainChunks t'). chunk_built (small_terrain (Some 5)) (snd kc)))
   \<and> (\<exists>t'. updateTerrainChunks sample_height (0, 0) (small_terrain (Some 0)) = Inr t'
         \<and> ((0, 0), \<lparr>mesh = None, chunkX = 0, chunkZ = 0, originalHeights = []\<rparr>)
              \<in> set (terrainChunks t'))
   \<and> updateTerrainChunks sample_height (1000, 0) null_chunk_terrain = Inl TypeError"
proof (intro conjI)
  note w5 = eviction_safe_only_under_seed
    [where t = "small_terrain (Some 5)" and H = sample_height and p = "(0, 0)" and deltaTime = 0]
  have h5: "chunkSize (small_terrain (Some 5)) \<noteq> 0 \<and> 0 < chunkResolution (small_terrain (Some 5))
      \<and> \<not> no_seed (terrainSeed (small_terrain (Some 5)))
      \<and> (\<forall>kc \<in> set (terrainChunks (small_terrain (Some 5))).
            chunk_built (small_terrain (Some 5)) (snd kc))"
    by (simp add: small_terrain_fields no_seed_def)
  from w5[THEN conjunct1, THEN mp, OF h5]
  show "\<exists>t'. updateTerrainChunks sample_height (0, 0) (small_terrain (Some 5)) = Inr t'
         \<and> (\<forall>kc \<in> set (terrainChunks t'). chunk_built t' (snd kc))" .
  have h5': "chunkSize (small_terrain (Some 5)) \<noteq> 0 \<and> 0 < chunkResolution (small_terrain (Some 5))
      \<and> \<not> no_seed (terrainSeed (small_terrain (Some 5)))
      \<and> (\<forall>kc \<in> set (terrainChunks (small_terrain (Some 5))).
            chunk_built (small_terrain (Some 5)) (snd kc))
      \<and> \<not> regenLerpActive (small_terrain (Some 5))"
    by (simp add: small_terrain_fields no_seed_def)
  from w5[THEN conjunct2, THEN conjunct1, THEN mp, OF h5']
  show "\<exists>t'. update sample_height 0 (0, 0) (small_terrain (Some 5)) = Inr t'
         \<and> (\<forall>kc \<in> set (terrainChunks t'). chunk_built (small_terrain (Some 5)) (snd kc))" .
  note w0 = eviction_safe_only_under_seed
    [where t = "small_terrain (Some 0)" and H = sample_height and p = "(0, 0)" and k = "(0, 0)"]
  have h0: "chunkSize (small_terrain (Some 0)) \<noteq> 0 \<and> no_seed (terrainSeed (small_terrain (Some 0)))
      \<and> (\<forall>kc \<in> set (terrainChunks (small_terrain (Some 0))). mesh (snd kc) \<noteq> None)
      \<and> (0, 0) \<in> set (requiredChunks (small_terrain (Some 0)) (0, 0))
      \<and> (0, 0) \<notin> fst ` set (terrainChunks (small_terrain (Some 0)))"
    using origin_required_small[of "Some 0"] by (simp add: small_terrain_fields no_seed_def)
  from w0[THEN conjunct2, THEN conjunct2, THEN conjunct1, THEN mp, OF h0]
  show "\<exists>t'. updateTerrainChunks sample_height (0, 0) (small_terrain (Some 0)) = Inr t'
         \<and> ((0, 0), \<lparr>mesh = None, chunkX = 0, chunkZ = 0, originalHeights = []\<rparr>)
              \<in> set (terrainChunks t')"
    by simp
  note wn = eviction_safe_only_under_seed
    [where t = null_chunk_terrain and H = sample_height and p = "(1000, 0)" and k = "(0, 0)"
       and c = "\<lparr>mesh = None, chunkX = 0, chunkZ = 0, originalHeights = []\<rparr>"]
  have hn: "chunkSize null_chunk_terrain \<noteq> 0
      \<and> (no_seed (terrainSeed null_chunk_terrain) \<or> 0 < chunkResolution null_chunk_terrain)
      \<and> ((0, 0), \<lparr>mesh = None, chunkX = 0, chunkZ = 0, originalHeights = []\<rparr>)
           \<in> set (terrainChunks null_chunk_terrain)
      \<and> mesh \<lparr>mesh = None, chunkX = 0, chunkZ = 0, originalHeights = []\<rparr> = None
      \<and> (0, 0) \<notin> set (requiredChunks null_chunk_terrain (1000, 0))"
    using origin_not_required_far by (simp add: null_chunk_terrain_fields)
  from wn[THEN conjunct2, THEN conjunct2, THEN conjunct2, THEN mp, OF hn]
  show "updateTerrainChunks sample_height (1000, 0) null_chunk_terrain = Inl TypeError" .
qed

section \<open>A transition frame that streams in a chunk\<close>

text \<open>
  \<open>regenerateTerrain\<close> fills the two tables for the chunks cached when it is called. The
  loop of \<open>update\<close> that interpolates runs over the chunks cached in the frame, after the
  frame has created the chunks that became required. A required chunk without an entry in
  the table of old heights has a mesh and at least one height, so the read
  \<^verbatim>\<open>this._regenOldHeights[chunkKey][i]\<close> is a property read of \<^verbatim>\<open>undefined\<close>.
\<close>

lemma lerp_chunk_uncovered:
  assumes "chunk_built cfg (snd kc)" and "map_of (regenOldHeights t) (fst kc) = None"
  shows "lerp_chunk t tt kc = Inl TypeError"
  using assms by (auto simp: lerp_chunk_def chunk_built_def split: option.splits)

lemma update_throws_on_uncovered_chunk:
  assumes cs: "chunkSize t \<noteq> 0" and res: "0 < chunkResolution t"
      and seed: "\<not> no_seed (terrainSeed t)"
      and inv: "\<forall>kc \<in> set (terrainChunks t). chunk_built t (snd kc)"
      and act: "regenLerpActive t" and dur: "0 < regenLerpDuration t"
      and tabs: "\<forall>k \<in> set (requiredChunks t p).
                 map_of (regenOldHeights t) k = None
                 \<or> (\<exists>olds news.
                      map_of (regenOldHeights t) k = Some olds \<and> map_of (regenNewHeights t) k = Some news
                      \<and> (chunkResolution t + 1)\<^sup>2 \<le> length olds
                      \<and> (chunkResolution t + 1)\<^sup>2 \<le> length news)"
      and k: "k \<in> set (requiredChunks t p)" "map_of (regenOldHeights t) k = None"
  shows "update H dt p t = Inl TypeError"
proof -
  let ?t0 = "t\<lparr>wavePhase := wavePhase t + dt * waveSpeed t\<rparr>"
  have inv0: "\<forall>kc \<in> set (terrainChunks ?t0). chunk_built ?t0 (snd kc)"
    using inv by (simp add: chunk_built_cong[of ?t0 t])
  have "\<exists>t1. updateTerrainChunks H p ?t0 = Inr t1
          \<and> (\<forall>kc \<in> set (terrainChunks t1). chunk_built t1 (snd kc))"
    by (rule updateTerrainChunks_built) (use cs res seed inv0 in simp_all)
  then obtain t1 where u: "updateTerrainChunks H p ?t0 = Inr t1"
    and b1': "\<forall>kc \<in> set (terrainChunks t1). chunk_built t1 (snd kc)" by blast
  from updateTerrainChunks_result[OF u] obtain kept where
    t1: "t1 = ?t0\<lparr>terrainChunks := kept\<rparr>" by (elim exE conjE)
  have cfg1: "chunkResolution t1 = chunkResolution t" by (simp add: t1)
  from b1' have b1: "\<forall>kc \<in> set (terrainChunks t1). chunk_built t (snd kc)"
    by (simp add: chunk_built_cong[OF cfg1])
  from updateTerrainChunks_keys[OF u] have k1: "fst ` set (terrainChunks t1) = set (requiredChunks t p)"
    by simp
  have "\<exists>t2. animateTerrainChunks t1 = Inr t2"
    by (rule animateTerrainChunks_total) (use b1 chunk_built_shaped in blast)
  then obtain t2 where a: "animateTerrainChunks t1 = Inr t2" ..
  from animateTerrainChunks_result[OF a] obtain chunks2 where
    t2: "t2 = t1\<lparr>terrainChunks := chunks2\<rparr>"
    and l: "list_all2 (\<lambda>kc kc'. animate_chunk t1 kc = Inr kc') (terrainChunks t1) chunks2"
    by (elim exE conjE)
  have c2: "terrainChunks t2 = chunks2" by (simp add: t2)
  have b2: "\<forall>kc \<in> set chunks2. chunk_built t (snd kc)"
  proof
    fix kc'
    assume "kc' \<in> set chunks2"
    from all2_set_right[OF l this] obtain kc where "kc \<in> set (terrainChunks t1)"
      and "animate_chunk t1 kc = Inr kc'" by blast
    with b1 animate_chunk_built show "chunk_built t (snd kc')" by blast
  qed
  have k2: "map fst chunks2 = map fst (terrainChunks t1)"
    by (rule all2_keys[OF l]) (use animate_chunk_result in blast)
  have keys2: "fst ` set chunks2 = set (requiredChunks t p)"
  proof -
    have "fst ` set chunks2 = set (map fst chunks2)" by simp
    also have "\<dots> = set (map fst (terrainChunks t1))" unfolding k2 ..
    also have "\<dots> = set (requiredChunks t p)" using k1 by simp
    finally show ?thesis .
  qed
  have f2: "regenLerpActive t2" "regenLerpDuration t2 = regenLerpDuration t"
    "regenOldHeights t2 = regenOldHeights t" "regenNewHeights t2 = regenNewHeights t"
    using act by (simp_all add: t2 t1)
  let ?tt = "min 1 ((regenLerpTime t2 + dt) / regenLerpDuration t2)"
  from k(1) keys2 have "k \<in> fst ` set chunks2" by simp
  then obtain kc where kc: "kc \<in> set chunks2" and fk: "fst kc = k"
    unfolding image_iff by blast
  have thrown: "lerp_chunk t2 ?tt kc = Inl TypeError"
  proof (rule lerp_chunk_uncovered)
    from b2 kc show "chunk_built t (snd kc)" by (rule bspec)
    from k(2) show "map_of (regenOldHeights t2) (fst kc) = None"
      unfolding f2 fk .
  qed
  have each: "(\<exists>z. lerp_chunk t2 ?tt y = Inr z) \<or> lerp_chunk t2 ?tt y = Inl TypeError"
    if y: "y \<in> set chunks2" for y
  proof -
    from b2 y have b: "chunk_built t (snd y)" by (rule bspec)
    from y keys2 have "fst y \<in> set (requiredChunks t p)" by force
    with tabs have "map_of (regenOldHeights t) (fst y) = None
        \<or> (\<exists>olds news.
              map_of (regenOldHeights t) (fst y) = Some olds \<and> map_of (regenNewHeights t) (fst y) = Some news
              \<and> (chunkResolution t + 1)\<^sup>2 \<le> length olds
              \<and> (chunkResolution t + 1)\<^sup>2 \<le> length news)"
      by (rule bspec)
    then show ?thesis
    proof
      assume "map_of (regenOldHeights t) (fst y) = None"
      then have "map_of (regenOldHeights t2) (fst y) = None" unfolding f2 .
      from lerp_chunk_uncovered[OF b this] show ?thesis ..
    next
      assume "\<exists>olds news.
              map_of (regenOldHeights t) (fst y) = Some olds \<and> map_of (regenNewHeights t) (fst y) = Some news
              \<and> (chunkResolution t + 1)\<^sup>2 \<le> length olds
              \<and> (chunkResolution t + 1)\<^sup>2 \<le> length news"
      then obtain olds news where
        o: "map_of (regenOldHeights t2) (fst y) = Some olds"
        and n: "map_of (regenNewHeights t2) (fst y) = Some news"
        and lo: "(chunkResolution t + 1)\<^sup>2 \<le> length olds"
        and ln: "(chunkResolution t + 1)\<^sup>2 \<le> length news"
        unfolding f2 by (elim exE conjE)
      from b have m: "mesh (snd y) \<noteq> None"
        and len: "length (originalHeights (snd y)) = (chunkResolution t + 1)\<^sup>2"
        by (auto simp: chunk_built_def split: option.splits)
      from lo ln have "length (originalHeights (snd y)) \<le> length olds"
        and "length (originalHeights (snd y)) \<le> length news"
        unfolding len by simp_all
      from lerp_chunk_total[OF m o n this] show ?thesis ..
    qed
  qed
  have "map_err (lerp_chunk t2 ?tt) chunks2 = Inl TypeError"
    using kc thrown each by (rule map_err_throws)
  then have "regenLerpStep dt t2 = Inl TypeError"
    using f2(1) dur by (simp add: regenLerpStep_def Let_def lerp_factor_pos f2(2) c2)
  with u a show ?thesis
    by (simp add: update_def)
qed

lemma regen_demo_fields:
  "chunkSize regen_demo = 100" "chunkResolution regen_demo = 1" "renderDistance regen_demo = 0"
  "terrainSeed regen_demo = Some 5" "regenLerpActive regen_demo" "regenLerpDuration regen_demo = 1"
  "regenLerpTime regen_demo = 0" "regenSeed regen_demo = Some 7"
  "regenOldHeights regen_demo = [((0, 0), [- 145, - 45, 55, 155])]"
  "regenNewHeights regen_demo = [((0, 0), [- 143, - 43, 57, 157])]"
  "terrainChunks regen_demo =
     [((0, 0), \<lparr>mesh = Some \<lparr>positions = [- 50, - 145, - 50, 50, - 45, - 50,
                                            - 50, 55, 50, 50, 155, 50]\<rparr>,
                chunkX = 0, chunkZ = 0, originalHeights = [- 145, - 45, 55, 155]\<rparr>)]"
  by (simp_all add: regen_demo_def spot_terrain_def small_terrain_fields)

lemma regen_demo_required: "requiredChunks regen_demo (0, 0) = [(0, 0)]"
  by (simp add: requiredChunks_def required_offsets_def regen_demo_fields)

lemma regen_demo_required_east: "requiredChunks regen_demo (100, 0) = [(1, 0)]"
  by (simp add: requiredChunks_def required_offsets_def regen_demo_fields)

lemma regen_demo_built:
  "\<forall>kc \<in> set (terrainChunks regen_demo). chunk_built regen_demo (snd kc)"
  by (simp add: regen_demo_fields chunk_built_def power2_eq_square)

lemma regen_demo_tables:
  "regenLerpActive regen_demo \<longrightarrow> 0 < regenLerpDuration regen_demo
     \<and> (\<forall>k \<in> set (requiredChunks regen_demo (0, 0)). \<exists>olds news.
           map_of (regenOldHeights regen_demo) k = Some olds
           \<and> map_of (regenNewHeights regen_demo) k = Some news
           \<and> (chunkResolution regen_demo + 1)\<^sup>2 \<le> length olds
           \<and> (chunkResolution regen_demo + 1)\<^sup>2 \<le> length news)"
  unfolding regen_demo_required by (simp add: regen_demo_fields power2_eq_square)

lemma regen_demo_frame: "\<exists>t'. update H dt (0, 0) regen_demo = Inr t'"
proof -
  have cs: "chunkSize regen_demo \<noteq> 0" and res: "0 < chunkResolution regen_demo"
    and seed: "\<not> no_seed (terrainSeed regen_demo)"
    by (simp_all add: regen_demo_fields no_seed_def)
  from update_total[OF cs res seed regen_demo_built regen_demo_tables, of H dt]
  obtain t' where "update H dt (0, 0) regen_demo = Inr t'"
    by (elim exE conjE)
  then show ?thesis ..
qed

lemma spot_vertices:
  "chunk_vertices sample_height spot_terrain 0 0
     = [- 50, - 145, - 50, 50, - 45, - 50, - 50, 55, 50, 50, 155, 50]"
  by (simp add: chunk_vertices_def vertex_coord_def spot_terrain_def small_terrain_def
      new_UnifiedTerrain_def sample_height_def upt_rec[of 0] upt_rec[of 1] upt_rec[of 2])

lemma spot_heights:
  "height_entries [- 50, - 145, - 50, 50, - 45, - 50, - 50, 55, 50, 50, 155, 50]
     = [- 145, - 45, 55, 155]"
  by (simp add: height_entries_def)

lemma spot_chunk:
  "createTerrainChunk sample_height spot_terrain 0 0
     = Inr \<lparr>mesh = Some \<lparr>positions = [- 50, - 145, - 50, 50, - 45, - 50,
                                         - 50, 55, 50, 50, 155, 50]\<rparr>,
             chunkX = 0, chunkZ = 0, originalHeights = [- 145, - 45, 55, 155]\<rparr>"
  unfolding createTerrainChunk_def Let_def spot_vertices spot_heights
  by (simp add: spot_terrain_def small_terrain_fields no_seed_def)

lemma regen_demo_from_regenerateTerrain:
  "regenerateTerrain sample_seeded_height (Some 7) 1
     (spot_terrain\<lparr>terrainChunks :=
        [((0, 0), \<lparr>mesh = Some \<lparr>positions = [- 50, - 145, - 50, 50, - 45, - 50,
                                               - 50, 55, 50, 50, 155, 50]\<rparr>,
                   chunkX = 0, chunkZ = 0, originalHeights = [- 145, - 45, 55, 155]\<rparr>)]\<rparr>)
     = Inr regen_demo"
  by (simp add: regenerateTerrain_def regen_chunk_def new_height_def sample_seeded_height_def
      sample_height_def regen_demo_def upt_rec[of 0] upt_rec[of 1] upt_rec[of 2] upt_rec[of 3])

text \<open>
  C4: while a transition is active the frame update sets every cached vertex height to
  the interpolated value, and the transition ends once the duration has elapsed. The
  source attempts this for every cached chunk (\<^verbatim>\<open>If lerping terrain regeneration, update heights\<close>,
  over \<^verbatim>\<open>this.terrainChunks\<close>), but a chunk that the frame streams in has no entry in the
  tables, and the frame throws instead.

  The generator has the single chunk \<open>(0, 0)\<close>, created under seed \<open>5\<close>;
  \<open>regenerateTerrain(7, 1)\<close> leaves it in the state \<open>regen_demo\<close>. A frame of that
  transition at the reference point \<open>(0, 0)\<close> returns. A frame at \<open>(100, 0)\<close>, which
  requires the chunk \<open>(1, 0)\<close>, throws a \<open>TypeError\<close>: no height is interpolated for the new
  chunk and the code after the loop, which would end the transition, is not reached.
\<close>

theorem transition_frame_throws_on_streamed_chunk:
  "createTerrainChunk sample_height spot_terrain 0 0
     = Inr \<lparr>mesh = Some \<lparr>positions = [- 50, - 145, - 50, 50, - 45, - 50,
                                         - 50, 55, 50, 50, 155, 50]\<rparr>,
             chunkX = 0, chunkZ = 0, originalHeights = [- 145, - 45, 55, 155]\<rparr>
   \<and> regenerateTerrain sample_seeded_height (Some 7) 1
     (spot_terrain\<lparr>terrainChunks :=
        [((0, 0), \<lparr>mesh = Some \<lparr>positions = [- 50, - 145, - 50, 50, - 45, - 50,
                                               - 50, 55, 50, 50, 155, 50]\<rparr>,
                   chunkX = 0, chunkZ = 0, originalHeights = [- 145, - 45, 55, 155]\<rparr>)]\<rparr>)
     = Inr regen_demo
   \<and> (\<exists>t'. update sample_height (1 / 2) (0, 0) regen_demo = Inr t')
   \<and> update sample_height (1 / 2) (100, 0) regen_demo = Inl TypeError
   \<and> update sample_height 1 (100, 0) regen_demo = Inl TypeError"
proof -
  have cs: "chunkSize regen_demo \<noteq> 0" and res: "0 < chunkResolution regen_demo"
    and seed: "\<not> no_seed (terrainSeed regen_demo)"
    and act: "regenLerpActive regen_demo" and dur: "0 < regenLerpDuration regen_demo"
    by (simp_all add: regen_demo_fields no_seed_def)
  have tabs: "\<forall>k \<in> set (requiredChunks regen_demo (100, 0)).
                 map_of (regenOldHeights regen_demo) k = None
                 \<or> (\<exists>olds news.
                      map_of (regenOldHeights regen_demo) k = Some olds
                      \<and> map_of (regenNewHeights regen_demo) k = Some news
                      \<and> (chunkResolution regen_demo + 1)\<^sup>2 \<le> length olds
                      \<and> (chunkResolution regen_demo + 1)\<^sup>2 \<le> length news)"
    unfolding regen_demo_required_east by (simp add: regen_demo_fields)
  have k: "(1, 0) \<in> set (requiredChunks regen_demo (100, 0))"
    "map_of (regenOldHeights regen_demo) (1, 0) = None"
    unfolding regen_demo_required_east by (simp_all add: regen_demo_fields)
  note thrown = update_throws_on_uncovered_chunk[OF cs res seed regen_demo_built act dur tabs k]
  from spot_chunk regen_demo_from_regenerateTerrain regen_demo_frame[of sample_height "1 / 2"]
    thrown[of sample_height "1 / 2"] thrown[of sample_height 1]
  show ?thesis by (intro conjI)
qed

end
